theory Spec2Isabelle
  imports Main "HOL-Library.Signed_Division"
begin

section \<open>The to-do list of \<open>src/main.cpp\<close>\<close>

text \<open>
  The program keeps one global vector of tasks, reads its commands from \<open>cin\<close>, prints
  to \<open>cout\<close>, and stores the tasks in a file of quoted, comma-separated lines. The theory
  embeds the date functions, the four commands that change the vector, and the two file
  functions.
\<close>

subsection \<open>Data\<close>

text \<open>\<open>struct TodoItem\<close>; \<open>typedef vector<TodoItem> TodoItems\<close>.\<close>

record TodoItem =
  title :: string
  description :: string
  due_date :: string
  completed :: bool

type_synonym TodoItems = "TodoItem list"

subsection \<open>Characters and decimal numbers\<close>

definition newline :: char where
  "newline = CHR 0x0A"

definition quote :: char where
  "quote = CHR 0x22"

text \<open>\<open>isspace\<close> in the C locale: space, \<open>\t\<close>, \<open>\n\<close>, \<open>\v\<close>, \<open>\f\<close>, \<open>\r\<close>.\<close>

definition isspace :: "char \<Rightarrow> bool" where
  "isspace c = (c \<in> set [CHR '' '', CHR 0x09, CHR 0x0A, CHR 0x0B, CHR 0x0C, CHR 0x0D])"

definition isdigit :: "char \<Rightarrow> bool" where
  "isdigit c = (c \<in> set ''0123456789'')"

definition digit_val :: "char \<Rightarrow> int" where
  "digit_val c = of_char c - 48"

text \<open>The value of a run of decimal digits, read from the left.\<close>

definition dec_val :: "string \<Rightarrow> int" where
  "dec_val ds = foldl (\<lambda>acc c. 10 * acc + digit_val c) 0 ds"

text \<open>
  \<open>operator<<\<close> for an \<open>int\<close> with the default flags: decimal digits, a minus sign for a
  negative number, no padding.
\<close>

definition digit_char :: "nat \<Rightarrow> char" where
  "digit_char n = ''0123456789'' ! (n mod 10)"

fun show_nat :: "nat \<Rightarrow> string" where
  "show_nat n = (if n < 10 then [digit_char n] else show_nat (n div 10) @ [digit_char n])"

definition show_int :: "int \<Rightarrow> string" where
  "show_int i = (if i < 0 then CHR ''-'' # show_nat (nat (- i)) else show_nat (nat i))"

subsection \<open>\<open>sscanf\<close> with the format \<open>"%d /%d /%d"\<close>\<close>

text \<open>
  \<open>c_str()\<close> ends at the first NUL character of the string.
\<close>

definition c_str :: "string \<Rightarrow> string" where
  "c_str s = takeWhile (\<lambda>c. c \<noteq> CHR 0x00) s"

text \<open>
  The conversion \<open>%d\<close>: white space is skipped, then an optional sign and a non-empty run
  of decimal digits is converted. The result is the number and the rest of the input, or
  \<open>None\<close> when no number is there. A number that does not fit an \<open>int\<close> is undefined
  behaviour in C; the model keeps its mathematical value.
\<close>

definition scan_d :: "string \<Rightarrow> (int \<times> string) option" where
  "scan_d s =
     (let s1 = dropWhile isspace s;
          neg = (s1 \<noteq> [] \<and> hd s1 = CHR ''-'');
          s2 = (if s1 \<noteq> [] \<and> (hd s1 = CHR ''-'' \<or> hd s1 = CHR ''+'') then tl s1 else s1);
          ds = takeWhile isdigit s2
      in if ds = [] then None
         else Some (if neg then - dec_val ds else dec_val ds, dropWhile isdigit s2))"

text \<open>The directive \<open>" /"\<close>: any white space, then the character \<open>/\<close>.\<close>

definition scan_slash :: "string \<Rightarrow> string option" where
  "scan_slash s =
     (case dropWhile isspace s of
        [] \<Rightarrow> None
      | c # r \<Rightarrow> if c = CHR ''/'' then Some r else None)"

text \<open>
  \<open>sscanf(str, "%d /%d /%d", &day, &month, &year)\<close>: the values assigned, in order. The
  scan stops at the first directive that fails. The value \<open>sscanf\<close> returns is the number of
  values assigned (or \<open>EOF\<close>, with none assigned, when the input ends before the first
  number); the program only tests it against 3.
\<close>

definition sscanf_date :: "string \<Rightarrow> int list" where
  "sscanf_date s =
     (case scan_d s of
        None \<Rightarrow> []
      | Some (day, r1) \<Rightarrow>
          (case scan_slash r1 of
             None \<Rightarrow> [day]
           | Some r2 \<Rightarrow>
               (case scan_d r2 of
                  None \<Rightarrow> [day]
                | Some (month, r3) \<Rightarrow>
                    (case scan_slash r3 of
                       None \<Rightarrow> [day, month]
                     | Some r4 \<Rightarrow>
                         (case scan_d r4 of
                            None \<Rightarrow> [day, month]
                          | Some (year, r5) \<Rightarrow> [day, month, year])))))"

subsection \<open>Dates\<close>

text \<open>\<open>is_leap_year\<close>. The operator \<open>%\<close> of C++ truncates towards zero: \<open>smod\<close>.\<close>

definition is_leap_year :: "int \<Rightarrow> bool" where
  "is_leap_year year =
     (if year smod 400 = 0 then True
      else if year smod 100 \<noteq> 0 \<and> year smod 4 = 0 then True
      else False)"

definition days_in_month :: "int list" where
  "days_in_month = [31, 28, 31, 30, 31, 30, 31, 31, 30, 31, 30, 31]"

text \<open>
  \<open>is_valid_date\<close>. \<open>matches != 3\<close> is the case of fewer than three values assigned.
  \<open>days_in_month[month - 1]\<close> is read only with \<open>month\<close> between 1 and 12.
\<close>

definition is_valid_date :: "string \<Rightarrow> bool" where
  "is_valid_date date_str =
     (case sscanf_date (c_str date_str) of
        [day, month, year] \<Rightarrow>
          if year < 1 then False
          else if month < 1 \<or> month > 12 then False
          else if day < 1 then False
          else if month = 2 \<and> is_leap_year year then (if day > 29 then False else True)
          else (if day > days_in_month ! nat (month - 1) then False else True)
      | _ \<Rightarrow> False)"

subsection \<open>The canonical form of a date\<close>

text \<open>
  The last two statements of \<open>get_date_input\<close>: the accepted line is scanned once more and
  the three numbers are written to a string stream, separated by slashes. A variable that
  \<open>sscanf\<close> did not assign has no value to print.
\<close>

datatype fault = Uninitialised | OutOfBounds

definition date_result :: "string \<Rightarrow> fault + string" where
  "date_result date_str =
     (case sscanf_date (c_str date_str) of
        [day, month, year] \<Rightarrow>
          Inr (show_int day @ ''/'' @ show_int month @ ''/'' @ show_int year)
      | _ \<Rightarrow> Inl Uninitialised)"

subsection \<open>Input streams\<close>

text \<open>
  An input stream is the characters not yet read and the two state flags the program can
  observe; \<open>badbit\<close> is never set by reading from memory. A stream converts to \<open>true\<close>
  when \<open>failbit\<close> is clear, and is \<open>good\<close> when \<open>eofbit\<close> is clear too. Every input
  function first constructs a sentry, which sets \<open>failbit\<close> and reads nothing when the stream is
  not good.
\<close>

record istream =
  buf :: string
  eofbit :: bool
  failbit :: bool

definition good :: "istream \<Rightarrow> bool" where
  "good c = (\<not> eofbit c \<and> \<not> failbit c)"

text \<open>\<open>c.clear()\<close>.\<close>

definition clear :: "istream \<Rightarrow> istream" where
  "clear c = c\<lparr>eofbit := False, failbit := False\<rparr>"

text \<open>
  \<open>getline(c, str)\<close>: the string is erased and filled with the characters before the next
  newline, which is read and dropped. At the end of the input \<open>eofbit\<close> is set, and
  \<open>failbit\<close> too when nothing at all was read. When the sentry fails the string keeps its
  value.
\<close>

definition getline :: "istream \<Rightarrow> string \<Rightarrow> istream \<times> string" where
  "getline c str =
     (if \<not> good c then (c\<lparr>failbit := True\<rparr>, str)
      else
        (case dropWhile (\<lambda>x. x \<noteq> newline) (buf c) of
           [] \<Rightarrow> (c\<lparr>buf := [], eofbit := True, failbit := (buf c = [])\<rparr>, buf c)
         | _ # rest \<Rightarrow> (c\<lparr>buf := rest\<rparr>, takeWhile (\<lambda>x. x \<noteq> newline) (buf c))))"

definition INT_MAX :: int where
  "INT_MAX = 2147483647"

definition INT_MIN :: int where
  "INT_MIN = - 2147483648"

text \<open>
  \<open>c.ignore(n, '\n')\<close>: characters are read and dropped until \<open>n\<close> of them are gone, the
  input ends (\<open>eofbit\<close>), or a newline has been dropped.
\<close>

definition ignore :: "int \<Rightarrow> istream \<Rightarrow> istream" where
  "ignore n c =
     (if \<not> good c then c\<lparr>failbit := True\<rparr>
      else if n \<le> int (length (takeWhile (\<lambda>x. x \<noteq> newline) (buf c)))
      then c\<lparr>buf := drop (nat n) (buf c)\<rparr>
      else
        (case dropWhile (\<lambda>x. x \<noteq> newline) (buf c) of
           [] \<Rightarrow> c\<lparr>buf := [], eofbit := True\<rparr>
         | _ # rest \<Rightarrow> c\<lparr>buf := rest\<rparr>))"

text \<open>
  \<open>c >> n\<close> for an \<open>int\<close> variable: the sentry skips white space and fails at the end of
  the input, leaving the variable as it was (\<open>None\<close> is a variable never assigned). Then an
  optional sign and the decimal digits after it are read. With no digit the variable
  becomes 0 and \<open>failbit\<close> is set; a number outside the range of \<open>int\<close> sets \<open>failbit\<close>
  and stores the nearest bound. Reading up to the end of the input sets \<open>eofbit\<close>.
\<close>

definition get_int :: "istream \<Rightarrow> int option \<Rightarrow> istream \<times> int option" where
  "get_int c var =
     (if \<not> good c then (c\<lparr>failbit := True\<rparr>, var)
      else
        (let s1 = dropWhile isspace (buf c) in
         if s1 = [] then (c\<lparr>buf := [], eofbit := True, failbit := True\<rparr>, var)
         else
           (let neg = (hd s1 = CHR ''-'');
                s2 = (if hd s1 = CHR ''-'' \<or> hd s1 = CHR ''+'' then tl s1 else s1);
                ds = takeWhile isdigit s2;
                rest = dropWhile isdigit s2;
                v = (if neg then - dec_val ds else dec_val ds);
                c' = c\<lparr>buf := rest, eofbit := (rest = [])\<rparr>
            in if ds = [] then (c'\<lparr>failbit := True\<rparr>, Some 0)
               else if v > INT_MAX then (c'\<lparr>failbit := True\<rparr>, Some INT_MAX)
               else if v < INT_MIN then (c'\<lparr>failbit := True\<rparr>, Some INT_MIN)
               else (c', Some v))))"

text \<open>
  \<open>c >> ch\<close> for a \<open>char\<close> variable: white space is skipped and the next character is
  stored; at the end of the input the variable keeps its value.
\<close>

definition get_char :: "istream \<Rightarrow> char option \<Rightarrow> istream \<times> char option" where
  "get_char c var =
     (if \<not> good c then (c\<lparr>failbit := True\<rparr>, var)
      else
        (case dropWhile isspace (buf c) of
           [] \<Rightarrow> (c\<lparr>buf := [], eofbit := True, failbit := True\<rparr>, var)
         | x # rest \<Rightarrow> (c\<lparr>buf := rest\<rparr>, Some x)))"

subsection \<open>The program state\<close>

text \<open>
  The global \<open>todo_items\<close>, the standard input, and the standard output as the list of the
  pieces of text written so far, one for each output statement.
\<close>

record state =
  todo_items :: TodoItems
  cin :: istream
  cout :: "string list"

definition print :: "string \<Rightarrow> state \<Rightarrow> state" where
  "print text s = s\<lparr>cout := cout s @ [text]\<rparr>"

text \<open>
  A function of the program returns a value and the new state, or stops at a fault (a read
  of a variable without a value, an access outside a vector), or never returns (\<open>None\<close>).
\<close>

type_synonym 'a result = "(fault + 'a \<times> state) option"

subsection \<open>\<open>get_item_position\<close>\<close>

text \<open>
  The body of the loop of \<open>get_item_position\<close>, with the local \<open>input_num\<close> as an
  argument. It ends the function with a result (\<open>Inl\<close>: a \<open>return\<close>, or the \<open>break\<close>
  that leads to the last \<open>return\<close>), or goes on to the next round with the new values of
  \<open>input_num\<close> and of the state (\<open>Inr\<close>: a \<open>continue\<close>). The comparison with
  \<open>todo_items.size()\<close> is made with \<open>input_num\<close> at least 1, where the conversion to an
  unsigned number keeps its value.
\<close>

definition get_item_position_body ::
  "string \<Rightarrow> int option \<Rightarrow> state \<Rightarrow> (fault + int \<times> state) + (int option \<times> state)" where
  "get_item_position_body action input_num s =
     (let s1 = print (''Enter task number to '' @ action @ '' (0 to abort operation): '') s;
          (c1, input_num1) = get_int (cin s1) input_num;
          c2 = ignore INT_MAX c1
      in if \<not> failbit c2 then
           (case input_num1 of
              None \<Rightarrow> Inl (Inl Uninitialised)
            | Some n \<Rightarrow>
                if n = 0 then Inl (Inr (- 1, print (''Abort task.'' @ [newline]) (s1\<lparr>cin := c2\<rparr>)))
                else if n \<ge> 1 \<and> n \<le> int (length (todo_items s1)) then Inl (Inr (n - 1, s1\<lparr>cin := c2\<rparr>))
                else Inr (input_num1, print (''Task number is out of range.'' @ [newline]) (s1\<lparr>cin := c2\<rparr>)))
         else
           Inr (input_num1,
                print (''What you've entered is not a number.'' @ [newline])
                  (s1\<lparr>cin := ignore INT_MAX (clear c2)\<rparr>)))"

text \<open>The loop \<open>while (true)\<close>: it returns when its body does.\<close>

partial_function (option) get_item_position_loop :: "string \<Rightarrow> int option \<Rightarrow> state \<Rightarrow> int result" where
  "get_item_position_loop action input_num s =
     (case get_item_position_body action input_num s of
        Inl r \<Rightarrow> Some r
      | Inr (input_num1, s1) \<Rightarrow> get_item_position_loop action input_num1 s1)"

declare get_item_position_loop.simps [code]

definition get_item_position :: "string \<Rightarrow> state \<Rightarrow> int result" where
  "get_item_position action s = get_item_position_loop action None s"

subsection \<open>\<open>get_date_input\<close>\<close>

text \<open>
  The loop of \<open>get_date_input\<close>, with the local \<open>date_str\<close> as its argument: lines are
  read until one is a valid date.
\<close>

partial_function (option) get_date_input_loop :: "string \<Rightarrow> state \<Rightarrow> (string \<times> state) option" where
  "get_date_input_loop date_str s =
     (let (c1, date_str1) = getline (cin s) date_str;
          s1 = s\<lparr>cin := c1\<rparr>
      in if is_valid_date date_str1 then Some (date_str1, s1)
         else get_date_input_loop date_str1 (print ''Please enter a valid date: '' s1))"

declare get_date_input_loop.simps [code]

definition get_date_input :: "state \<Rightarrow> string result" where
  "get_date_input s =
     (case get_date_input_loop [] s of
        None \<Rightarrow> None
      | Some (date_str, s1) \<Rightarrow>
          (case date_result date_str of
             Inl f \<Rightarrow> Some (Inl f)
           | Inr r \<Rightarrow> Some (Inr (r, s1))))"

subsection \<open>The vector\<close>

text \<open>
  \<open>v[i]\<close>, \<open>v[i] = x\<close> and \<open>v.erase(v.begin() + i)\<close> are defined for the positions of the
  vector only.
\<close>

definition in_bounds :: "TodoItems \<Rightarrow> int \<Rightarrow> bool" where
  "in_bounds v i = (0 \<le> i \<and> i < int (length v))"

definition vector_at :: "TodoItems \<Rightarrow> int \<Rightarrow> fault + TodoItem" where
  "vector_at v i = (if in_bounds v i then Inr (v ! nat i) else Inl OutOfBounds)"

definition vector_set :: "TodoItems \<Rightarrow> int \<Rightarrow> TodoItem \<Rightarrow> fault + TodoItems" where
  "vector_set v i x = (if in_bounds v i then Inr (v[nat i := x]) else Inl OutOfBounds)"

definition vector_erase :: "TodoItems \<Rightarrow> int \<Rightarrow> fault + TodoItems" where
  "vector_erase v i =
     (if in_bounds v i then Inr (take (nat i) v @ drop (Suc (nat i)) v) else Inl OutOfBounds)"

subsection \<open>The commands\<close>

text \<open>\<open>add\<close>.\<close>

definition add :: "state \<Rightarrow> unit result" where
  "add s =
     (let s1 = print (''Enter task details (Empty to abort operation): '' @ [newline]) s;
          s2 = print ''Title: '' s1;
          (c3, task_title) = getline (cin s2) [];
          s3 = s2\<lparr>cin := c3\<rparr>
      in if task_title = [] then Some (Inr ((), print (''Abort task.'' @ [newline]) s3))
         else
           (let s4 = print ''Description: '' s3;
                (c5, task_description) = getline (cin s4) [];
                s5 = s4\<lparr>cin := c5\<rparr>;
                s6 = print ''Due Date (DD/MM/YYYY): '' s5
            in case get_date_input s6 of
                 None \<Rightarrow> None
               | Some (Inl f) \<Rightarrow> Some (Inl f)
               | Some (Inr (task_due_date, s7)) \<Rightarrow>
                   (let task = \<lparr>title = task_title, description = task_description,
                                 due_date = task_due_date, completed = False\<rparr>;
                        s8 = s7\<lparr>todo_items := todo_items s7 @ [task]\<rparr>
                    in Some (Inr ((), print (''Task added successfully'' @ [newline]) s8)))))"

text \<open>\<open>mark\<close>.\<close>

definition mark :: "state \<Rightarrow> unit result" where
  "mark s =
     (case get_item_position ''mark'' s of
        None \<Rightarrow> None
      | Some (Inl f) \<Rightarrow> Some (Inl f)
      | Some (Inr (item_position, s1)) \<Rightarrow>
          if item_position = - 1 then Some (Inr ((), s1))
          else
            (case vector_at (todo_items s1) item_position of
               Inl f \<Rightarrow> Some (Inl f)
             | Inr item \<Rightarrow>
                 if completed item
                 then Some (Inr ((), print (''Task is already marked as completed.'' @ [newline]) s1))
                 else
                   (case vector_set (todo_items s1) item_position (item\<lparr>completed := True\<rparr>) of
                      Inl f \<Rightarrow> Some (Inl f)
                    | Inr v \<Rightarrow>
                        Some (Inr ((), print (''Task marked as completed.'' @ [newline])
                                         (s1\<lparr>todo_items := v\<rparr>))))))"

text \<open>\<open>edit\<close>. The task is changed in a copy, which is stored at the end.\<close>

definition edit :: "state \<Rightarrow> unit result" where
  "edit s =
     (case get_item_position ''edit'' s of
        None \<Rightarrow> None
      | Some (Inl f) \<Rightarrow> Some (Inl f)
      | Some (Inr (item_position, s1)) \<Rightarrow>
          if item_position = - 1 then Some (Inr ((), s1))
          else
            (case vector_at (todo_items s1) item_position of
               Inl f \<Rightarrow> Some (Inl f)
             | Inr task \<Rightarrow>
                 (let s2 = print (''Enter task details (Empty to abort operation): '' @ [newline]) s1;
                      s3 = print (''Title (was '' @ title task @ ''): '') s2;
                      (c4, task_title) = getline (cin s3) (title task);
                      s4 = s3\<lparr>cin := c4\<rparr>
                  in if task_title = [] then Some (Inr ((), print (''Abort task.'' @ [newline]) s4))
                     else
                       (let s5 = print (''Description: (was '' @ description task @ ''): '') s4;
                            (c6, task_description) = getline (cin s5) (description task);
                            s6 = s5\<lparr>cin := c6\<rparr>;
                            s7 = print (''Due Date (DD/MM/YYYY, was '' @ due_date task @ ''): '') s6
                        in case get_date_input s7 of
                             None \<Rightarrow> None
                           | Some (Inl f) \<Rightarrow> Some (Inl f)
                           | Some (Inr (task_due_date, s8)) \<Rightarrow>
                               (case vector_set (todo_items s8) item_position
                                       (task\<lparr>title := task_title, description := task_description,
                                              due_date := task_due_date\<rparr>) of
                                  Inl f \<Rightarrow> Some (Inl f)
                                | Inr v \<Rightarrow>
                                    Some (Inr ((), print (''Task edited successfully'' @ [newline])
                                                     (s8\<lparr>todo_items := v\<rparr>))))))))"

text \<open>\<open>remove\<close>. The local \<open>choice\<close> has no value before \<open>cin >> choice\<close> stores one.\<close>

definition remove :: "state \<Rightarrow> unit result" where
  "remove s =
     (case get_item_position ''remove'' s of
        None \<Rightarrow> None
      | Some (Inl f) \<Rightarrow> Some (Inl f)
      | Some (Inr (item_position, s1)) \<Rightarrow>
          if item_position = - 1 then Some (Inr ((), s1))
          else
            (case vector_at (todo_items s1) item_position of
               Inl f \<Rightarrow> Some (Inl f)
             | Inr item \<Rightarrow>
                 (let s2 = print (''Confirm to delete '' @ [quote] @ title item @ [quote] @ ''? [y/n]: '') s1;
                      (c3, choice) = get_char (cin s2) None;
                      s3 = s2\<lparr>cin := c3\<rparr>
                  in case choice of
                       None \<Rightarrow> Some (Inl Uninitialised)
                     | Some ch \<Rightarrow>
                         if ch = CHR ''y'' \<or> ch = CHR ''Y'' then
                           (case vector_erase (todo_items s3) item_position of
                              Inl f \<Rightarrow> Some (Inl f)
                            | Inr v \<Rightarrow>
                                (let s4 = print (''Task deleted successfully.'' @ [newline])
                                            (s3\<lparr>todo_items := v\<rparr>)
                                 in Some (Inr ((), s4\<lparr>cin := ignore INT_MAX (cin s4)\<rparr>))))
                         else
                           (let s4 = print (''Delete operation cancelled.'' @ [newline]) s3
                            in Some (Inr ((), s4\<lparr>cin := ignore INT_MAX (cin s4)\<rparr>))))))"

subsection \<open>The save file\<close>

text \<open>
  \<open>save_data\<close>: the text written to the file, one line for each task. A \<open>bool\<close> is written
  as \<open>1\<close> or \<open>0\<close>.
\<close>

definition write_item :: "TodoItem \<Rightarrow> string" where
  "write_item item =
     [quote] @ title item @ [quote] @ '','' @
     [quote] @ description item @ [quote] @ '','' @
     [quote] @ due_date item @ [quote] @ '','' @
     [quote] @ (if completed item then ''1'' else ''0'') @ [quote] @ [newline]"

definition save_data :: "TodoItems \<Rightarrow> string" where
  "save_data items = foldl (\<lambda>fout item. fout @ write_item item) [] items"

text \<open>
  The regular expression of \<open>retrieve_data\<close> is four times a quote, a run of characters
  other than a quote (a group), and a quote, with commas in between. A run followed by a
  quote can only be the longest one, so the expression matches in at most one way at a
  given place. \<open>quoted_field\<close> matches one such part at the head of the input and gives the
  group and the rest.
\<close>

definition quoted_field :: "string \<Rightarrow> (string \<times> string) option" where
  "quoted_field s =
     (case s of
        [] \<Rightarrow> None
      | c # r \<Rightarrow>
          if c \<noteq> quote then None
          else
            (case dropWhile (\<lambda>x. x \<noteq> quote) r of
               [] \<Rightarrow> None
             | _ # r' \<Rightarrow> Some (takeWhile (\<lambda>x. x \<noteq> quote) r, r')))"

definition comma :: "string \<Rightarrow> string option" where
  "comma s = (case s of [] \<Rightarrow> None | c # r \<Rightarrow> if c = CHR '','' then Some r else None)"

text \<open>The whole expression at the head of the input: the four groups.\<close>

definition match_here :: "string \<Rightarrow> (string \<times> string \<times> string \<times> string) option" where
  "match_here s =
     (case quoted_field s of
        None \<Rightarrow> None
      | Some (g1, r1) \<Rightarrow>
     (case comma r1 of
        None \<Rightarrow> None
      | Some r2 \<Rightarrow>
     (case quoted_field r2 of
        None \<Rightarrow> None
      | Some (g2, r3) \<Rightarrow>
     (case comma r3 of
        None \<Rightarrow> None
      | Some r4 \<Rightarrow>
     (case quoted_field r4 of
        None \<Rightarrow> None
      | Some (g3, r5) \<Rightarrow>
     (case comma r5 of
        None \<Rightarrow> None
      | Some r6 \<Rightarrow>
     (case quoted_field r6 of
        None \<Rightarrow> None
      | Some (g4, r7) \<Rightarrow> Some (g1, g2, g3, g4))))))))"

text \<open>The text that the expression matches with the groups \<open>g1\<close> to \<open>g4\<close>.\<close>

definition pattern_text :: "string \<Rightarrow> string \<Rightarrow> string \<Rightarrow> string \<Rightarrow> string" where
  "pattern_text g1 g2 g3 g4 =
     quote # g1 @ quote # CHR '','' # quote # g2 @ quote # CHR '','' #
     quote # g3 @ quote # CHR '','' # quote # g4 @ [quote]"

text \<open>
  \<open>regex_search\<close> tries the places of the line from the left. The result is the list of
  the sub-matches: the matched text and the four groups, or nothing when the line has no
  match.
\<close>

fun regex_search :: "string \<Rightarrow> string list" where
  "regex_search [] = []"
| "regex_search (c # s) =
     (case match_here (c # s) of
        Some (g1, g2, g3, g4) \<Rightarrow> [pattern_text g1 g2 g3 g4, g1, g2, g3, g4]
      | None \<Rightarrow> regex_search s)"

text \<open>\<open>matches.str(n)\<close>: empty for a sub-match that is not there.\<close>

definition str :: "string list \<Rightarrow> nat \<Rightarrow> string" where
  "str matches n = (if n < length matches then matches ! n else [])"

text \<open>
  The body of the loop of \<open>retrieve_data\<close>: the item made from one line. The variable
  \<open>item\<close> lives outside the loop, and each round assigns all four of its fields.
\<close>

definition parse_line :: "string \<Rightarrow> TodoItem" where
  "parse_line line =
     (let matches = regex_search line
      in \<lparr>title = str matches 1, description = str matches 2, due_date = str matches 3,
          completed = (if str matches 4 = ''1'' then True else False)\<rparr>)"

text \<open>
  \<open>ifstream file(DATA_PATH)\<close>: a stream on the text of the file; without a file the stream
  has failed from the start.
\<close>

definition ifstream :: "string option \<Rightarrow> istream" where
  "ifstream content =
     (case content of
        None \<Rightarrow> \<lparr>buf = [], eofbit = False, failbit = True\<rparr>
      | Some text \<Rightarrow> \<lparr>buf = text, eofbit = False, failbit = False\<rparr>)"

text \<open>A call of \<open>getline\<close> that does not fail takes at least one character.\<close>

lemma getline_shorter:
  assumes "getline f l = (f1, l1)" and "\<not> failbit f1"
  shows "length (buf f1) < length (buf f)"
proof -
  have le: "length (dropWhile (\<lambda>c. c \<noteq> newline) (buf f)) \<le> length (buf f)"
    by (rule length_dropWhile_le)
  from assms have g: "good f"
    by (cases "good f") (auto simp: getline_def)
  show ?thesis
  proof (cases "dropWhile (\<lambda>c. c \<noteq> newline) (buf f)")
    case Nil
    with assms g have "f1 = f\<lparr>buf := [], eofbit := True, failbit := (buf f = [])\<rparr>"
      unfolding getline_def by auto
    with assms(2) show ?thesis
      by simp
  next
    case (Cons c rest)
    with assms g have "f1 = f\<lparr>buf := rest\<rparr>"
      unfolding getline_def by auto
    with le Cons show ?thesis
      by simp
  qed
qed

text \<open>The loop \<open>while (getline(file, line))\<close>.\<close>

function retrieve_loop :: "istream \<Rightarrow> string \<Rightarrow> TodoItems \<Rightarrow> TodoItems" where
  "retrieve_loop file line items =
     (case getline file line of
        (file1, line1) \<Rightarrow>
          if failbit file1 then items
          else retrieve_loop file1 line1 (items @ [parse_line line1]))"
  by pat_completeness auto

termination
  apply (relation "measure (\<lambda>(f, l, v). length (buf f))")
   apply simp
  apply simp
  apply (rule getline_shorter)
   apply (rule sym)
   apply assumption+
  done

declare retrieve_loop.simps [simp del]

text \<open>\<open>retrieve_data\<close>, on the text of the save file if there is one.\<close>

definition retrieve_data :: "string option \<Rightarrow> TodoItems" where
  "retrieve_data content = retrieve_loop (ifstream content) [] []"

subsection \<open>Notions of the statements\<close>

text \<open>
  A line has a match when some part of it is the text of the expression with four groups
  free of quotes: the language of the regular expression, apart from any search.
\<close>

definition has_match :: "string \<Rightarrow> bool" where
  "has_match line =
     (\<exists>pre g1 g2 g3 g4 post.
        line = pre @ pattern_text g1 g2 g3 g4 @ post \<and>
        quote \<notin> set g1 \<and> quote \<notin> set g2 \<and> quote \<notin> set g3 \<and> quote \<notin> set g4)"

text \<open>The line of the save file for a task, without its end.\<close>

definition item_line :: "TodoItem \<Rightarrow> string" where
  "item_line x =
     pattern_text (title x) (description x) (due_date x) (if completed x then ''1'' else ''0'')"

definition quote_free :: "TodoItem \<Rightarrow> bool" where
  "quote_free x =
     (quote \<notin> set (title x) \<and> quote \<notin> set (description x) \<and> quote \<notin> set (due_date x))"

definition newline_free :: "TodoItem \<Rightarrow> bool" where
  "newline_free x =
     (newline \<notin> set (title x) \<and> newline \<notin> set (description x) \<and>
      newline \<notin> set (due_date x))"

text \<open>
  A date is canonical when it is valid and the last two statements of \<open>get_date_input\<close>
  give it back as it is: it is made of its own day, month and year, written without padding
  and joined by slashes.
\<close>

definition canonical_date :: "string \<Rightarrow> bool" where
  "canonical_date s = (is_valid_date s \<and> date_result s = Inr s)"

text \<open>
  An answer is a yes, compared without regard to the case of the letters, when it is the
  word \<open>yes\<close> once its letters are made small.
\<close>

definition tolower :: "char \<Rightarrow> char" where
  "tolower c =
     (case map_of (zip ''ABCDEFGHIJKLMNOPQRSTUVWXYZ'' ''abcdefghijklmnopqrstuvwxyz'') c of
        None \<Rightarrow> c
      | Some l \<Rightarrow> l)"

definition says_yes :: "string \<Rightarrow> bool" where
  "says_yes answer = (map tolower answer = ''yes'')"

section \<open>Properties\<close>

subsection \<open>Leap years\<close>

lemma smod_zero_iff: "(k::int) smod l = 0 \<longleftrightarrow> l dvd k"
proof -
  have "\<bar>k\<bar> mod \<bar>l\<bar> = 0 \<longleftrightarrow> \<bar>l\<bar> dvd \<bar>k\<bar>"
    by (simp add: dvd_eq_mod_eq_0)
  then show ?thesis
    by (cases "k = 0") (simp_all add: smod_int_alt_def sgn_if)
qed

text \<open>
  C3. For every year, \<open>is_leap_year\<close> is true exactly when the remainder of the year by
  400 is zero, or the remainder by 100 is not zero and the remainder by 4 is zero (the
  remainder of C++, which is zero exactly when the divisor divides the year). 1900 and
  2023 are not leap years, 2000 and 2024 are.
\<close>

theorem is_leap_year_rule:
  "(is_leap_year year \<longleftrightarrow>
      year smod 400 = 0 \<or> (year smod 100 \<noteq> 0 \<and> year smod 4 = 0)) \<and>
   (is_leap_year year \<longleftrightarrow> 400 dvd year \<or> (\<not> 100 dvd year \<and> 4 dvd year)) \<and>
   is_leap_year 1900 = False \<and> is_leap_year 2000 = True \<and>
   is_leap_year 2024 = True \<and> is_leap_year 2023 = False"
  by (simp add: is_leap_year_def smod_zero_iff)

subsection \<open>The regular expression\<close>

lemma takeWhile_until: "a \<notin> set g \<Longrightarrow> takeWhile (\<lambda>x. x \<noteq> a) (g @ a # r) = g"
  by (induction g) auto

lemma dropWhile_until: "a \<notin> set g \<Longrightarrow> dropWhile (\<lambda>x. x \<noteq> a) (g @ a # r) = a # r"
  by (induction g) auto

lemma quoted_field_quote:
  "quote \<notin> set g \<Longrightarrow> quoted_field (quote # g @ quote # r) = Some (g, r)"
  by (simp add: quoted_field_def takeWhile_until dropWhile_until)

lemma comma_Cons: "comma (CHR '','' # r) = Some r"
  by (simp add: comma_def)

lemma match_here_pattern:
  assumes "quote \<notin> set g1" "quote \<notin> set g2" "quote \<notin> set g3" "quote \<notin> set g4"
  shows "match_here (pattern_text g1 g2 g3 g4 @ r) = Some (g1, g2, g3, g4)"
  using assms by (simp add: match_here_def pattern_text_def quoted_field_quote comma_Cons)

lemma quoted_field_SomeD:
  assumes "quoted_field s = Some (g, r)"
  shows "s = quote # g @ quote # r \<and> quote \<notin> set g"
proof -
  from assms obtain t where s: "s = quote # t"
    by (cases s) (auto simp: quoted_field_def split: if_splits)
  with assms obtain x where d: "dropWhile (\<lambda>x. x \<noteq> quote) t = x # r"
    and g: "g = takeWhile (\<lambda>x. x \<noteq> quote) t"
    by (auto simp: quoted_field_def split: list.splits)
  from d have "x = quote"
    using hd_dropWhile [of "\<lambda>x. x \<noteq> quote" t] by auto
  with d g have "t = g @ quote # r"
    using takeWhile_dropWhile_id [of "\<lambda>x. x \<noteq> quote" t] by simp
  moreover from g have "quote \<notin> set g"
    by (auto dest: set_takeWhileD)
  ultimately show ?thesis
    using s by simp
qed

lemma comma_SomeD: "comma s = Some r \<Longrightarrow> s = CHR '','' # r"
  by (cases s) (auto simp: comma_def split: if_splits)

lemma match_here_SomeD:
  assumes "match_here s = Some (g1, g2, g3, g4)"
  shows "\<exists>r. s = pattern_text g1 g2 g3 g4 @ r \<and>
    quote \<notin> set g1 \<and> quote \<notin> set g2 \<and> quote \<notin> set g3 \<and> quote \<notin> set g4"
  using assms
  by (auto simp: match_here_def pattern_text_def split: option.splits prod.splits
      dest!: quoted_field_SomeD comma_SomeD)

text \<open>The search finds nothing exactly in the lines without a match.\<close>

lemma regex_search_Nil_iff: "regex_search line = [] \<longleftrightarrow> \<not> has_match line"
proof (induction line)
  case Nil
  show ?case
    by (simp add: has_match_def pattern_text_def)
next
  case (Cons c s)
  show ?case
  proof (cases "match_here (c # s)")
    case (Some gs)
    obtain g1 g2 g3 g4 where gs: "gs = (g1, g2, g3, g4)"
      by (cases gs) auto
    from Some gs match_here_SomeD [of "c # s" g1 g2 g3 g4]
    have "has_match (c # s)"
      unfolding has_match_def by (metis append_Nil)
    with Some gs show ?thesis
      by simp
  next
    case None
    have "has_match (c # s) \<longleftrightarrow> has_match s"
    proof
      assume "has_match (c # s)"
      then obtain pre g1 g2 g3 g4 post where
        eq: "c # s = pre @ pattern_text g1 g2 g3 g4 @ post" and
        q: "quote \<notin> set g1" "quote \<notin> set g2" "quote \<notin> set g3" "quote \<notin> set g4"
        unfolding has_match_def by blast
      show "has_match s"
      proof (cases pre)
        case Nil
        with eq q None match_here_pattern [of g1 g2 g3 g4 post] show ?thesis
          by simp
      next
        case (Cons a pre')
        with eq have "s = pre' @ pattern_text g1 g2 g3 g4 @ post"
          by simp
        with q show ?thesis
          unfolding has_match_def by blast
      qed
    next
      assume "has_match s"
      then obtain pre g1 g2 g3 g4 post where
        eq: "s = pre @ pattern_text g1 g2 g3 g4 @ post" and
        q: "quote \<notin> set g1" "quote \<notin> set g2" "quote \<notin> set g3" "quote \<notin> set g4"
        unfolding has_match_def by blast
      from eq have "c # s = (c # pre) @ pattern_text g1 g2 g3 g4 @ post"
        by simp
      with q show "has_match (c # s)"
        unfolding has_match_def by blast
    qed
    with None Cons.IH show ?thesis
      by simp
  qed
qed

lemma parse_line_item_line:
  assumes "quote_free x"
  shows "parse_line (item_line x) = x"
proof -
  let ?g4 = "if completed x then ''1'' else ''0''"
  have g4: "quote \<notin> set ?g4"
    by (simp add: quote_def)
  from assms g4 match_here_pattern [of "title x" "description x" "due_date x" ?g4 "[]"]
  have m: "match_here (item_line x) = Some (title x, description x, due_date x, ?g4)"
    by (simp add: item_line_def quote_free_def)
  obtain r where r: "item_line x = quote # r"
    by (simp add: item_line_def pattern_text_def)
  from m r show ?thesis
    by (simp add: parse_line_def str_def)
qed

lemma parse_line_no_match:
  "regex_search line = [] \<Longrightarrow>
   parse_line line = \<lparr>title = [], description = [], due_date = [], completed = False\<rparr>"
  by (simp add: parse_line_def str_def)

subsection \<open>Reading the save file line by line\<close>

lemma getline_line:
  "newline \<notin> set l \<Longrightarrow>
   getline (ifstream (Some (l @ newline # rest))) l0 = (ifstream (Some rest), l)"
  by (simp add: getline_def ifstream_def good_def takeWhile_until dropWhile_until)

lemma getline_last_line:
  assumes "newline \<notin> set l"
  shows "getline (ifstream (Some l)) l0 = (\<lparr>buf = [], eofbit = True, failbit = (l = [])\<rparr>, l)"
proof -
  from assms have d: "dropWhile (\<lambda>x. x \<noteq> newline) l = []"
    by (auto simp: dropWhile_eq_Nil_conv)
  show ?thesis
    by (simp add: getline_def ifstream_def good_def d)
qed

lemma retrieve_loop_step:
  "getline f l = (f1, l1) \<Longrightarrow>
   retrieve_loop f l v = (if failbit f1 then v else retrieve_loop f1 l1 (v @ [parse_line l1]))"
  by (subst retrieve_loop.simps) simp

lemma retrieve_loop_acc: "retrieve_loop f l v = v @ retrieve_loop f l []"
proof (induction "length (buf f)" arbitrary: f l v rule: less_induct)
  case less
  obtain f1 l1 where g: "getline f l = (f1, l1)"
    by (cases "getline f l")
  show ?case
  proof (cases "failbit f1")
    case True
    with g show ?thesis
      by (simp add: retrieve_loop_step)
  next
    case False
    with g have "length (buf f1) < length (buf f)"
      by (rule getline_shorter)
    from less [OF this, of l1 "v @ [parse_line l1]"] less [OF this, of l1 "[parse_line l1]"]
    have "retrieve_loop f1 l1 (v @ [parse_line l1]) = v @ retrieve_loop f1 l1 [parse_line l1]"
      by simp
    with g False show ?thesis
      by (simp add: retrieve_loop_step)
  qed
qed

lemma retrieve_loop_good: "good f \<Longrightarrow> retrieve_loop f l v = retrieve_loop f [] v"
proof -
  assume "good f"
  then have e: "getline f l = getline f []"
    by (simp add: getline_def)
  obtain f1 l1 where g: "getline f [] = (f1, l1)"
    by (cases "getline f []")
  with e have "getline f l = (f1, l1)"
    by simp
  from retrieve_loop_step [OF this] retrieve_loop_step [OF g] show ?thesis
    by simp
qed

lemma retrieve_loop_line:
  assumes "newline \<notin> set l"
  shows "retrieve_loop (ifstream (Some (l @ newline # rest))) l0 v =
         v @ parse_line l # retrieve_loop (ifstream (Some rest)) [] []"
proof -
  have f: "\<not> failbit (ifstream (Some rest))" and g: "good (ifstream (Some rest))"
    by (simp_all add: ifstream_def good_def)
  from retrieve_loop_step [OF getline_line [OF assms]] f
  have "retrieve_loop (ifstream (Some (l @ newline # rest))) l0 v =
        retrieve_loop (ifstream (Some rest)) l (v @ [parse_line l])"
    by simp
  also have "\<dots> = retrieve_loop (ifstream (Some rest)) [] (v @ [parse_line l])"
    using g by (rule retrieve_loop_good)
  also have "\<dots> = (v @ [parse_line l]) @ retrieve_loop (ifstream (Some rest)) [] []"
    by (rule retrieve_loop_acc)
  finally show ?thesis
    by simp
qed

lemma retrieve_loop_last_line:
  assumes "newline \<notin> set l" and "l \<noteq> []"
  shows "retrieve_loop (ifstream (Some l)) l0 v = v @ [parse_line l]"
proof -
  let ?f1 = "\<lparr>buf = [], eofbit = True, failbit = False\<rparr>"
  have "getline ?f1 l = (?f1\<lparr>failbit := True\<rparr>, l)"
    by (simp add: getline_def good_def)
  from retrieve_loop_step [OF this]
  have "retrieve_loop ?f1 l (v @ [parse_line l]) = v @ [parse_line l]"
    by simp
  with assms retrieve_loop_step [OF getline_last_line [OF assms(1)], of l0 v] show ?thesis
    by simp
qed

lemma retrieve_loop_empty: "retrieve_loop (ifstream (Some [])) l0 v = v"
  using retrieve_loop_step [OF getline_last_line [of "[]"], of l0 v] by simp

lemma retrieve_data_line:
  "newline \<notin> set l \<Longrightarrow>
   retrieve_data (Some (l @ newline # rest)) = parse_line l # retrieve_data (Some rest)"
  by (simp add: retrieve_data_def retrieve_loop_line)

lemma retrieve_data_last_line:
  "newline \<notin> set l \<Longrightarrow> l \<noteq> [] \<Longrightarrow> retrieve_data (Some l) = [parse_line l]"
  by (simp add: retrieve_data_def retrieve_loop_last_line)

lemma retrieve_data_empty: "retrieve_data (Some []) = []"
  by (simp add: retrieve_data_def retrieve_loop_empty)

text \<open>A text that ends with a newline is read on its own, whatever follows it.\<close>

lemma retrieve_data_append:
  assumes "before = [] \<or> last before = newline"
  shows "retrieve_data (Some (before @ rest)) =
         retrieve_data (Some before) @ retrieve_data (Some rest)"
  using assms
proof (induction "length before" arbitrary: before rule: less_induct)
  case less
  show ?case
  proof (cases "before = []")
    case True
    then show ?thesis
      by (simp add: retrieve_data_empty)
  next
    case False
    with less.prems have "newline \<in> set before"
      using last_in_set [of before] by auto
    then obtain l b where b: "before = l @ newline # b" and l: "newline \<notin> set l"
      by (auto dest: split_list_first)
    from b less.prems have "b = [] \<or> last b = newline"
      by (cases "b = []") simp_all
    moreover from b have "length b < length before"
      by simp
    ultimately have
      "retrieve_data (Some (b @ rest)) = retrieve_data (Some b) @ retrieve_data (Some rest)"
      by (rule less.hyps [rotated])
    with b l show ?thesis
      by (simp add: retrieve_data_line)
  qed
qed

subsection \<open>Saving and reading back\<close>

lemma save_data_concat: "save_data items = concat (map write_item items)"
proof -
  have "foldl (\<lambda>fout item. fout @ write_item item) acc items =
        acc @ concat (map write_item items)" for acc
    by (induction items arbitrary: acc) simp_all
  then show ?thesis
    by (simp add: save_data_def)
qed

lemma write_item_line: "write_item x = item_line x @ [newline]"
  by (simp add: write_item_def item_line_def pattern_text_def)

lemma item_line_newline: "newline_free x \<Longrightarrow> newline \<notin> set (item_line x)"
  by (simp add: newline_free_def item_line_def pattern_text_def newline_def quote_def)

text \<open>
  C1, as stated: for every list of tasks without a quote in a title, description or due
  date, reading the saved text gives the list back. It fails for a task with a newline in
  its title: the task is written on two lines, neither has a match, and two empty tasks are
  read.
\<close>

theorem round_trip_counterexample:
  "quote_free \<lparr>title = ''a'' @ [newline] @ ''b'', description = ''c'', due_date = ''1/1/2025'',
               completed = True\<rparr> \<and>
   retrieve_data (Some (save_data
     [\<lparr>title = ''a'' @ [newline] @ ''b'', description = ''c'', due_date = ''1/1/2025'',
        completed = True\<rparr>])) =
     [\<lparr>title = [], description = [], due_date = [], completed = False\<rparr>,
      \<lparr>title = [], description = [], due_date = [], completed = False\<rparr>] \<and>
   retrieve_data (Some (save_data
     [\<lparr>title = ''a'' @ [newline] @ ''b'', description = ''c'', due_date = ''1/1/2025'',
        completed = True\<rparr>])) \<noteq>
     [\<lparr>title = ''a'' @ [newline] @ ''b'', description = ''c'', due_date = ''1/1/2025'',
        completed = True\<rparr>]"
  by code_simp

text \<open>
  C1, amended: for every list of tasks with neither a quote nor a newline in a title,
  description or due date, the saved text is one line for each task, with the four fields in
  quotes, separated by commas, in the order title, description, due date and the digit 1 or
  0 for \<open>completed\<close>; and reading it gives the same list, in the same order.
\<close>

theorem round_trip:
  assumes "\<forall>x\<in>set items. quote_free x \<and> newline_free x"
  shows "save_data items = concat (map (\<lambda>x. item_line x @ [newline]) items) \<and>
         retrieve_data (Some (save_data items)) = items"
proof
  have "write_item = (\<lambda>x. item_line x @ [newline])"
    by (rule ext) (rule write_item_line)
  then show "save_data items = concat (map (\<lambda>x. item_line x @ [newline]) items)"
    by (simp add: save_data_concat)
  from assms show "retrieve_data (Some (save_data items)) = items"
  proof (induction items)
    case Nil
    show ?case
      by (simp add: save_data_concat retrieve_data_empty)
  next
    case (Cons x items)
    then have "retrieve_data (Some (save_data items)) = items"
      by simp
    moreover have "save_data (x # items) = item_line x @ newline # save_data items"
      by (simp add: save_data_concat write_item_line)
    ultimately show ?case
      using Cons.prems by (simp add: retrieve_data_line item_line_newline parse_line_item_line)
  qed
qed

theorem round_trip_witness:
  "quote_free \<lparr>title = ''Buy milk, eggs'', description = ''2%'', due_date = ''5/3/2025'',
               completed = False\<rparr> \<and>
   newline_free \<lparr>title = ''Buy milk, eggs'', description = ''2%'', due_date = ''5/3/2025'',
                 completed = False\<rparr> \<and>
   quote_free \<lparr>title = ''Call'', description = [], due_date = ''29/2/2024'',
               completed = True\<rparr> \<and>
   newline_free \<lparr>title = ''Call'', description = [], due_date = ''29/2/2024'',
                 completed = True\<rparr> \<and>
   retrieve_data (Some (save_data
     [\<lparr>title = ''Buy milk, eggs'', description = ''2%'', due_date = ''5/3/2025'',
        completed = False\<rparr>,
      \<lparr>title = ''Call'', description = [], due_date = ''29/2/2024'', completed = True\<rparr>])) =
     [\<lparr>title = ''Buy milk, eggs'', description = ''2%'', due_date = ''5/3/2025'',
        completed = False\<rparr>,
      \<lparr>title = ''Call'', description = [], due_date = ''29/2/2024'', completed = True\<rparr>]"
  using round_trip
    [of "[\<lparr>title = ''Buy milk, eggs'', description = ''2%'', due_date = ''5/3/2025'',
             completed = False\<rparr>,
          \<lparr>title = ''Call'', description = [], due_date = ''29/2/2024'', completed = True\<rparr>]",
     THEN conjunct2]
  by (simp add: quote_free_def newline_free_def quote_def newline_def)

subsection \<open>Lines without a match\<close>

text \<open>
  C6. A line of the save file without a match for the expression still gives a task, at
  the place of the line in the list read, with an empty title, description and due date and
  \<open>completed\<close> false. The line is a whole line: it starts the text or follows a newline,
  and it ends with a newline or with the text.
\<close>

theorem unmatched_line:
  assumes "\<not> has_match line" and "newline \<notin> set line"
    and "before = [] \<or> last before = newline"
  shows "parse_line line =
           \<lparr>title = [], description = [], due_date = [], completed = False\<rparr> \<and>
         retrieve_data (Some (before @ line @ newline # rest)) =
           retrieve_data (Some before) @
           \<lparr>title = [], description = [], due_date = [], completed = False\<rparr> #
           retrieve_data (Some rest) \<and>
         (line \<noteq> [] \<longrightarrow>
            retrieve_data (Some (before @ line)) =
              retrieve_data (Some before) @
              [\<lparr>title = [], description = [], due_date = [], completed = False\<rparr>])"
proof -
  from assms(1) have p: "parse_line line =
      \<lparr>title = [], description = [], due_date = [], completed = False\<rparr>"
    by (simp add: regex_search_Nil_iff parse_line_no_match)
  from assms(2,3) p show ?thesis
    by (simp add: retrieve_data_append retrieve_data_line retrieve_data_last_line)
qed

theorem unmatched_line_witness:
  "\<not> has_match ''buy milk,2%'' \<and>
   retrieve_data (Some (item_line \<lparr>title = ''a'', description = ''b'', due_date = ''1/1/2025'',
                                    completed = True\<rparr> @ [newline] @
                        ''buy milk,2%'' @ [newline])) =
     [\<lparr>title = ''a'', description = ''b'', due_date = ''1/1/2025'', completed = True\<rparr>,
      \<lparr>title = [], description = [], due_date = [], completed = False\<rparr>]"
proof -
  let ?x = "\<lparr>title = ''a'', description = ''b'', due_date = ''1/1/2025'', completed = True\<rparr>"
  have "regex_search ''buy milk,2%'' = []"
    by code_simp
  then have n: "\<not> has_match ''buy milk,2%''"
    by (rule regex_search_Nil_iff [THEN iffD1])
  have l: "newline \<notin> set ''buy milk,2%''"
    by (simp add: newline_def)
  have b: "item_line ?x @ [newline] = [] \<or> last (item_line ?x @ [newline]) = newline"
    by simp
  have "retrieve_data (Some (item_line ?x @ [newline])) = [?x]"
    by code_simp
  moreover have "retrieve_data (Some []) = []"
    by code_simp
  ultimately show ?thesis
    using n unmatched_line [OF n l b, of "[]"] by simp
qed

subsection \<open>The loop of \<open>get_item_position\<close>\<close>

lemma todo_items_print [simp]: "todo_items (print m s) = todo_items s"
  by (simp add: print_def)

lemma cin_print [simp]: "cin (print m s) = cin s"
  by (simp add: print_def)

lemma cout_print [simp]: "cout (print m s) = cout s @ [m]"
  by (simp add: print_def)

lemma ignore_failbit: "failbit c \<Longrightarrow> failbit (ignore k c)"
  by (simp add: ignore_def good_def)

lemma get_int_stream: "fst (get_int c n) = fst (get_int c n')"
  by (simp add: get_int_def Let_def)

lemma get_int_ok:
  assumes "get_int c n = (c1, v1)" and "\<not> failbit c1"
  shows "\<exists>v. v1 = Some v \<and> INT_MIN \<le> v \<and> v \<le> INT_MAX \<and> get_int c n' = (c1, Some v)"
proof -
  from assms have g: "good c"
    by (cases "good c") (auto simp: get_int_def)
  define s1 where "s1 = dropWhile isspace (buf c)"
  from assms g have s1: "s1 \<noteq> []"
    unfolding s1_def
    by (cases "dropWhile isspace (buf c) = []") (auto simp: get_int_def simp del: dropWhile_eq_Nil_conv)
  define s2 where "s2 = (if hd s1 = CHR ''-'' \<or> hd s1 = CHR ''+'' then tl s1 else s1)"
  define v where "v = (if hd s1 = CHR ''-'' then - dec_val (takeWhile isdigit s2) else dec_val (takeWhile isdigit s2))"
  define c' where "c' = c\<lparr>buf := dropWhile isdigit s2, eofbit := (dropWhile isdigit s2 = [])\<rparr>"
  have eq: "get_int c m =
    (if takeWhile isdigit s2 = [] then (c'\<lparr>failbit := True\<rparr>, Some 0)
     else if v > INT_MAX then (c'\<lparr>failbit := True\<rparr>, Some INT_MAX)
     else if v < INT_MIN then (c'\<lparr>failbit := True\<rparr>, Some INT_MIN)
     else (c', Some v))" for m
    using g s1 unfolding get_int_def s1_def s2_def v_def c'_def Let_def
    by (simp del: dropWhile_eq_Nil_conv)
  from assms eq [of n] have "takeWhile isdigit s2 \<noteq> [] \<and> \<not> v > INT_MAX \<and> \<not> v < INT_MIN"
    by (auto split: if_splits)
  with assms eq [of n] eq [of n'] show ?thesis
    by auto
qed

lemma body_read:
  assumes "get_int (cin s) n = (c1, Some p)" and "\<not> failbit (ignore INT_MAX c1)"
  shows "get_item_position_body action n s =
    (let s1 = (print (''Enter task number to '' @ action @ '' (0 to abort operation): '') s)
                \<lparr>cin := ignore INT_MAX c1\<rparr>
     in if p = 0 then Inl (Inr (- 1, print (''Abort task.'' @ [newline]) s1))
        else if 1 \<le> p \<and> p \<le> int (length (todo_items s)) then Inl (Inr (p - 1, s1))
        else Inr (Some p, print (''Task number is out of range.'' @ [newline]) s1))"
  using assms by (simp add: get_item_position_body_def Let_def)

lemma body_failed:
  assumes "get_int (cin s) n = (c1, v1)" and "failbit (ignore INT_MAX c1)"
  shows "get_item_position_body action n s =
    Inr (v1, print (''What you've entered is not a number.'' @ [newline])
               ((print (''Enter task number to '' @ action @ '' (0 to abort operation): '') s)
                  \<lparr>cin := ignore INT_MAX (clear (ignore INT_MAX c1))\<rparr>))"
  using assms by (simp add: get_item_position_body_def Let_def)

lemma body_cases:
  obtains
    (failed) c1 v1 where "get_int (cin s) n = (c1, v1)" "failbit (ignore INT_MAX c1)"
  | (read) c1 p where "get_int (cin s) n = (c1, Some p)" "\<not> failbit (ignore INT_MAX c1)"
proof -
  obtain c1 v1 where g: "get_int (cin s) n = (c1, v1)"
    by (cases "get_int (cin s) n")
  show thesis
  proof (cases "failbit (ignore INT_MAX c1)")
    case True
    with g show ?thesis
      by (rule failed)
  next
    case False
    then have "\<not> failbit c1"
      using ignore_failbit by blast
    with g obtain p where "v1 = Some p"
      using get_int_ok by blast
    with g False show ?thesis
      by (auto intro: read)
  qed
qed

lemma body_Inl:
  assumes "get_item_position_body action n s = Inl r"
  shows "\<exists>i s'. r = Inr (i, s') \<and> todo_items s' = todo_items s \<and>
           (i = - 1 \<and> last (cout s') = ''Abort task.'' @ [newline] \<or> in_bounds (todo_items s) i) \<and>
           \<not> failbit (cin s') \<and>
           get_item_position_body action n' s = Inl r"
proof (cases rule: body_cases [of s n])
  case (failed c1 v1)
  with assms show ?thesis
    by (simp add: body_failed)
next
  case (read c1 p)
  from read(1) have "\<not> failbit c1 \<Longrightarrow> get_int (cin s) n' = (c1, Some p)"
    using get_int_ok [of "cin s" n c1 "Some p" n'] by simp
  moreover from read(2) have "\<not> failbit c1"
    using ignore_failbit by blast
  ultimately have g': "get_int (cin s) n' = (c1, Some p)"
    by simp
  from assms read g' show ?thesis
    by (auto simp: body_read Let_def in_bounds_def split: if_splits)
qed

lemma body_Inr:
  assumes "get_item_position_body action n s = Inr (n1, s1)"
  shows "todo_items s1 = todo_items s \<and> (\<exists>n1'. get_item_position_body action n' s = Inr (n1', s1))"
proof (cases rule: body_cases [of s n])
  case (failed c1 v1)
  obtain v1' where g': "get_int (cin s) n' = (c1, v1')"
    using failed(1) get_int_stream [of "cin s" n n'] by (cases "get_int (cin s) n'") simp
  from assms failed g' show ?thesis
    by (auto simp: body_failed)
next
  case (read c1 p)
  from read(1) have "\<not> failbit c1 \<Longrightarrow> get_int (cin s) n' = (c1, Some p)"
    using get_int_ok [of "cin s" n c1 "Some p" n'] by simp
  moreover from read(2) have "\<not> failbit c1"
    using ignore_failbit by blast
  ultimately have g': "get_int (cin s) n' = (c1, Some p)"
    by simp
  from assms read g' show ?thesis
    by (auto simp: body_read Let_def split: if_splits)
qed

lemma loop_return:
  "get_item_position_body action n s = Inl r \<Longrightarrow> get_item_position_loop action n s = Some r"
  by (subst get_item_position_loop.simps) simp

lemma loop_continue:
  "get_item_position_body action n s = Inr (n1, s1) \<Longrightarrow>
   get_item_position_loop action n s = get_item_position_loop action n1 s1"
  by (subst get_item_position_loop.simps) simp

lemma loop_result:
  assumes "get_item_position_loop action n s = Some r"
  shows "\<exists>i s'. r = Inr (i, s') \<and> todo_items s' = todo_items s \<and>
           (i = - 1 \<and> last (cout s') = ''Abort task.'' @ [newline] \<or> in_bounds (todo_items s) i) \<and>
           \<not> failbit (cin s')"
proof (rule get_item_position_loop.raw_induct [OF _ assms], goal_cases)
  case (1 loop action n s r)
  show ?case
  proof (cases "get_item_position_body action n s")
    case (Inl r')
    with 1(2) have "r' = r"
      by simp
    with Inl body_Inl [of action n s r] show ?thesis
      by blast
  next
    case (Inr b)
    obtain n1 s1 where b: "b = (n1, s1)"
      by (cases b)
    with Inr 1(2) have "loop action n1 s1 = Some r"
      by simp
    from 1(1) [OF this] body_Inr [of action n s n1 s1] Inr b show ?thesis
      by simp
  qed
qed

lemma loop_indep_Some:
  assumes "get_item_position_loop action n s = Some r"
  shows "get_item_position_loop action n' s = Some r"
proof -
  have "\<forall>n'. get_item_position_loop action n' s = Some r"
  proof (rule get_item_position_loop.raw_induct [OF _ assms], goal_cases)
    case (1 loop action n s r)
    show ?case
    proof (cases "get_item_position_body action n s")
      case (Inl r')
      with 1(2) have "r' = r"
        by simp
      with Inl body_Inl [of action n s r] show ?thesis
        by (auto intro: loop_return)
    next
      case (Inr b)
      obtain n1 s1 where b: "b = (n1, s1)"
        by (cases b)
      with Inr 1(2) have "loop action n1 s1 = Some r"
        by simp
      from 1(1) [OF this] have ih: "\<And>m. get_item_position_loop action m s1 = Some r"
        by blast
      show ?thesis
      proof
        fix n'
        from body_Inr [of action n s n1 s1 n'] Inr b obtain n1' where
          "get_item_position_body action n' s = Inr (n1', s1)"
          by auto
        from loop_continue [OF this] ih [of n1']
        show "get_item_position_loop action n' s = Some r"
          by simp
      qed
    qed
  qed
  then show ?thesis
    by blast
qed

lemma loop_indep: "get_item_position_loop action n s = get_item_position_loop action n' s"
proof (cases "get_item_position_loop action n s")
  case None
  show ?thesis
  proof (cases "get_item_position_loop action n' s")
    case n: None
    with None show ?thesis
      by simp
  next
    case (Some r)
    from loop_indep_Some [OF this, of n] None show ?thesis
      by simp
  qed
next
  case (Some r)
  from loop_indep_Some [OF this, of n'] Some show ?thesis
    by simp
qed

lemma get_item_position_result:
  assumes "get_item_position action s = Some r"
  shows "\<exists>i s'. r = Inr (i, s') \<and> todo_items s' = todo_items s \<and>
           (i = - 1 \<and> last (cout s') = ''Abort task.'' @ [newline] \<or> in_bounds (todo_items s) i) \<and>
           \<not> failbit (cin s')"
  using assms unfolding get_item_position_def by (rule loop_result)

lemma get_item_position_read:
  assumes "get_int (cin s) None = (c1, Some p)" and "\<not> failbit (ignore INT_MAX c1)"
  shows "get_item_position action s =
    (let s1 = (print (''Enter task number to '' @ action @ '' (0 to abort operation): '') s)
                \<lparr>cin := ignore INT_MAX c1\<rparr>
     in if p = 0 then Some (Inr (- 1, print (''Abort task.'' @ [newline]) s1))
        else if 1 \<le> p \<and> p \<le> int (length (todo_items s)) then Some (Inr (p - 1, s1))
        else get_item_position action (print (''Task number is out of range.'' @ [newline]) s1))"
proof -
  let ?s1 = "(print (''Enter task number to '' @ action @ '' (0 to abort operation): '') s)
                \<lparr>cin := ignore INT_MAX c1\<rparr>"
  note b = body_read [OF assms, of action]
  consider "p = 0" | "p \<noteq> 0" "1 \<le> p \<and> p \<le> int (length (todo_items s))"
    | "p \<noteq> 0" "\<not> (1 \<le> p \<and> p \<le> int (length (todo_items s)))"
    by blast
  then show ?thesis
  proof cases
    case 1
    with b have "get_item_position_body action None s =
        Inl (Inr (- 1, print (''Abort task.'' @ [newline]) ?s1))"
      by (simp add: Let_def)
    from loop_return [OF this] 1 show ?thesis
      by (simp add: get_item_position_def Let_def)
  next
    case 2
    with b have "get_item_position_body action None s = Inl (Inr (p - 1, ?s1))"
      by (simp add: Let_def)
    from loop_return [OF this] 2 show ?thesis
      by (simp add: get_item_position_def Let_def)
  next
    case 3
    with b have "get_item_position_body action None s =
        Inr (Some p, print (''Task number is out of range.'' @ [newline]) ?s1)"
      by (simp add: Let_def)
    from loop_continue [OF this] 3 show ?thesis
      by (auto simp add: get_item_position_def Let_def loop_indep [of action "Some p" _ None])
  qed
qed

lemma get_item_position_failed:
  assumes "get_int (cin s) None = (c1, v1)" and "failbit (ignore INT_MAX c1)"
  shows "get_item_position action s =
    get_item_position action
      (print (''What you've entered is not a number.'' @ [newline])
         ((print (''Enter task number to '' @ action @ '' (0 to abort operation): '') s)
            \<lparr>cin := ignore INT_MAX (clear (ignore INT_MAX c1))\<rparr>))"
  using loop_continue [OF body_failed [OF assms, of action]]
  by (simp add: get_item_position_def loop_indep [of action v1 _ None])

text \<open>At the end of the input the loop goes round for ever.\<close>

lemma body_end_of_input:
  assumes "buf (cin s) = []"
  shows "\<exists>n1 s1. get_item_position_body action n s = Inr (n1, s1) \<and> buf (cin s1) = []"
proof -
  obtain c1 v1 where g: "get_int (cin s) n = (c1, v1)"
    by (cases "get_int (cin s) n")
  with assms have f: "failbit c1" and b: "buf c1 = []"
    by (auto simp: get_int_def split: if_splits)
  from f have "failbit (ignore INT_MAX c1)"
    by (rule ignore_failbit)
  from body_failed [OF g this, of action] b show ?thesis
    by (simp add: ignore_def clear_def good_def INT_MAX_def)
qed

lemma loop_end_of_input:
  assumes "buf (cin s) = []"
  shows "get_item_position_loop action n s = None"
proof (cases "get_item_position_loop action n s")
  case None
  then show ?thesis .
next
  case (Some r)
  have "buf (cin s) \<noteq> []"
  proof (rule get_item_position_loop.raw_induct [OF _ Some], goal_cases)
    case (1 loop action n s r)
    show ?case
    proof
      assume e: "buf (cin s) = []"
      from body_end_of_input [OF e, of action n] obtain n1 s1 where
        b: "get_item_position_body action n s = Inr (n1, s1)" and e1: "buf (cin s1) = []"
        by blast
      from b 1(2) have "loop action n1 s1 = Some r"
        by simp
      from 1(1) [OF this] e1 show False
        by simp
    qed
  qed
  with assms show ?thesis
    by simp
qed

subsection \<open>Decimal numbers and canonical dates\<close>

declare show_nat.simps [simp del]

lemma below_ten: "(k::nat) < 10 \<Longrightarrow> k \<in> {0, 1, 2, 3, 4, 5, 6, 7, 8, 9}"
  by (simp add: insert_iff) arith

lemma digit_char_cases:
  "digit_char n \<in> set ''0123456789''"
proof -
  have "n mod 10 \<in> {0, 1, 2, 3, 4, 5, 6, 7, 8, 9}"
    by (rule below_ten) simp
  then show ?thesis
    unfolding digit_char_def by (auto simp: nth_Cons')
qed

lemma isdigit_digit_char: "isdigit (digit_char n)"
  using digit_char_cases by (simp add: isdigit_def)

lemma digit_val_digit_char: "digit_val (digit_char n) = int (n mod 10)"
proof -
  have "n mod 10 \<in> {0, 1, 2, 3, 4, 5, 6, 7, 8, 9}"
    by (rule below_ten) simp
  then show ?thesis
    unfolding digit_char_def digit_val_def by (auto simp: nth_Cons')
qed

lemma isdigit_not_space: "isdigit c \<Longrightarrow> \<not> isspace c"
  by (auto simp: isdigit_def isspace_def)

lemma isdigit_not_sign: "isdigit c \<Longrightarrow> c \<noteq> CHR ''-'' \<and> c \<noteq> CHR ''+'' \<and> c \<noteq> CHR ''/'' \<and> c \<noteq> CHR 0x00 \<and> c \<noteq> newline"
  by (auto simp: isdigit_def newline_def)

lemma show_nat_digits: "show_nat n \<noteq> [] \<and> (\<forall>c\<in>set (show_nat n). isdigit c)"
proof (induction n rule: show_nat.induct)
  case (1 n)
  then show ?case
    by (subst show_nat.simps, subst (2) show_nat.simps) (auto simp: isdigit_digit_char)
qed

lemma dec_val_snoc: "dec_val (ds @ [c]) = 10 * dec_val ds + digit_val c"
  by (simp add: dec_val_def)

lemma dec_val_show_nat: "dec_val (show_nat n) = int n"
proof (induction n rule: show_nat.induct)
  case (1 n)
  show ?case
  proof (cases "n < 10")
    case True
    then show ?thesis
      by (subst show_nat.simps) (simp add: dec_val_def digit_val_digit_char)
  next
    case False
    with 1 have "dec_val (show_nat (n div 10)) = int (n div 10)"
      by simp
    with False show ?thesis
      by (subst show_nat.simps) (simp add: dec_val_snoc digit_val_digit_char zdiv_int zmod_int)
  qed
qed

lemma takeWhile_run:
  assumes "\<forall>c\<in>set ds. P c" and "rest = [] \<or> \<not> P (hd rest)"
  shows "takeWhile P (ds @ rest) = ds \<and> dropWhile P (ds @ rest) = rest"
proof -
  from assms(2) have "takeWhile P rest = [] \<and> dropWhile P rest = rest"
    by (cases rest) auto
  with assms(1) show ?thesis
    by (simp add: takeWhile_append2 dropWhile_append2)
qed

lemma scan_d_show_nat:
  assumes "rest = [] \<or> \<not> isdigit (hd rest)"
  shows "scan_d (show_nat n @ rest) = Some (int n, rest)"
proof -
  from show_nat_digits [of n] obtain c ds where s: "show_nat n = c # ds"
    and d: "\<forall>x\<in>set (c # ds). isdigit x"
    by (cases "show_nat n") auto
  from d have c: "isdigit c" "\<not> isspace c" "c \<noteq> CHR ''-''" "c \<noteq> CHR ''+''"
    using isdigit_not_space isdigit_not_sign by auto
  from takeWhile_run [OF d assms]
  have t: "takeWhile isdigit ((c # ds) @ rest) = c # ds"
    and r: "dropWhile isdigit ((c # ds) @ rest) = rest"
    by blast+
  have "dec_val (c # ds) = int n"
    using dec_val_show_nat [of n] s by simp
  with c t r s show ?thesis
    by (simp add: scan_d_def Let_def)
qed

lemma scan_slash_Cons: "scan_slash (CHR ''/'' # r) = Some r"
  by (simp add: scan_slash_def isspace_def)

lemma not_isdigit_slash: "\<not> isdigit CHR ''/''"
  by (simp add: isdigit_def)

lemma show_int_nonneg: "0 \<le> i \<Longrightarrow> show_int i = show_nat (nat i)"
  by (simp add: show_int_def)

lemma sscanf_date_canonical:
  assumes "0 \<le> d" "0 \<le> m" "0 \<le> y"
  shows "sscanf_date (show_int d @ ''/'' @ show_int m @ ''/'' @ show_int y) = [d, m, y]"
proof -
  have 1: "scan_d (show_nat (nat d) @ CHR ''/'' # show_nat (nat m) @ CHR ''/'' # show_nat (nat y))
           = Some (d, CHR ''/'' # show_nat (nat m) @ CHR ''/'' # show_nat (nat y))"
    using scan_d_show_nat [of "CHR ''/'' # show_nat (nat m) @ CHR ''/'' # show_nat (nat y)" "nat d"]
      assms by (simp add: not_isdigit_slash)
  have 2: "scan_d (show_nat (nat m) @ CHR ''/'' # show_nat (nat y))
           = Some (m, CHR ''/'' # show_nat (nat y))"
    using scan_d_show_nat [of "CHR ''/'' # show_nat (nat y)" "nat m"]
      assms by (simp add: not_isdigit_slash)
  have 3: "scan_d (show_nat (nat y)) = Some (y, [])"
    using scan_d_show_nat [of "[]" "nat y"] assms by simp
  from assms 1 2 3 show ?thesis
    by (simp add: sscanf_date_def show_int_nonneg scan_slash_Cons)
qed

lemma c_str_canonical:
  assumes "0 \<le> d" "0 \<le> m" "0 \<le> y"
  shows "c_str (show_int d @ ''/'' @ show_int m @ ''/'' @ show_int y) =
         show_int d @ ''/'' @ show_int m @ ''/'' @ show_int y"
proof -
  have "\<forall>c\<in>set (show_nat k). c \<noteq> CHR 0x00" for k
    using show_nat_digits [of k] isdigit_not_sign by blast
  with assms show ?thesis
    unfolding c_str_def by (simp add: show_int_nonneg)
qed

lemma is_valid_date_values:
  assumes "is_valid_date s"
  obtains d m y where "sscanf_date (c_str s) = [d, m, y]" "1 \<le> d" "1 \<le> m" "1 \<le> y"
proof -
  from assms obtain d m y where s: "sscanf_date (c_str s) = [d, m, y]"
    by (auto simp: is_valid_date_def split: list.splits)
  with assms have "1 \<le> d \<and> 1 \<le> m \<and> 1 \<le> y"
    by (auto simp: is_valid_date_def split: if_splits)
  with s that show thesis
    by blast
qed

lemma is_valid_date_same_values:
  "sscanf_date (c_str a) = sscanf_date (c_str b) \<Longrightarrow> is_valid_date a = is_valid_date b"
  by (simp add: is_valid_date_def)

lemma date_result_canonical:
  assumes "is_valid_date s"
  shows "\<exists>c. date_result s = Inr c \<and> canonical_date c"
proof -
  from assms obtain d m y where s: "sscanf_date (c_str s) = [d, m, y]"
    and pos: "1 \<le> d" "1 \<le> m" "1 \<le> y"
    by (rule is_valid_date_values)
  let ?c = "show_int d @ ''/'' @ show_int m @ ''/'' @ show_int y"
  from pos have nn: "0 \<le> d" "0 \<le> m" "0 \<le> y"
    by simp_all
  from c_str_canonical [OF nn] sscanf_date_canonical [OF nn]
  have c: "sscanf_date (c_str ?c) = [d, m, y]"
    by simp
  with s assms have "is_valid_date ?c"
    using is_valid_date_same_values [of ?c s] by simp
  moreover from c have "date_result ?c = Inr ?c"
    by (simp add: date_result_def)
  moreover from s have "date_result s = Inr ?c"
    by (simp add: date_result_def)
  ultimately show ?thesis
    by (simp add: canonical_date_def)
qed

subsection \<open>The scan pattern\<close>






subsection \<open>Valid dates\<close>






subsection \<open>What the commands do to the list\<close>

lemma date_loop_result:
  assumes "get_date_input_loop d s = Some r"
  shows "is_valid_date (fst r) \<and> todo_items (snd r) = todo_items s"
proof (rule get_date_input_loop.raw_induct [OF _ assms], goal_cases)
  case (1 loop d s r)
  obtain c1 d1 where g: "getline (cin s) d = (c1, d1)"
    by (cases "getline (cin s) d")
  show ?case
  proof (cases "is_valid_date d1")
    case True
    with g 1(2) show ?thesis
      by (auto simp: Let_def)
  next
    case False
    with g 1(2) have "loop d1 (print ''Please enter a valid date: '' (s\<lparr>cin := c1\<rparr>)) = Some r"
      by (simp add: Let_def)
    from 1(1) [OF this] show ?thesis
      by simp
  qed
qed

lemma get_date_input_result:
  assumes "get_date_input s = Some r"
  shows "\<exists>c s'. r = Inr (c, s') \<and> canonical_date c \<and> todo_items s' = todo_items s"
proof -
  from assms obtain d s1 where l: "get_date_input_loop [] s = Some (d, s1)"
    by (auto simp: get_date_input_def split: option.splits)
  from date_loop_result [OF l] have v: "is_valid_date d" and t: "todo_items s1 = todo_items s"
    by simp_all
  from date_result_canonical [OF v] obtain c where "date_result d = Inr c" "canonical_date c"
    by blast
  with assms l t show ?thesis
    by (auto simp: get_date_input_def)
qed

lemma add_result:
  assumes "add s = Some r"
  shows "\<exists>s'. r = Inr ((), s') \<and>
     ((todo_items s' = todo_items s \<and> last (cout s') = ''Abort task.'' @ [newline]) \<or>
      (\<exists>t. todo_items s' = todo_items s @ [t] \<and> title t \<noteq> [] \<and> \<not> completed t \<and>
           canonical_date (due_date t) \<and>
           last (cout s') = ''Task added successfully'' @ [newline]))"
proof -
  let ?s2 = "print ''Title: '' (print (''Enter task details (Empty to abort operation): '' @ [newline]) s)"
  obtain c3 t where g1: "getline (cin s) [] = (c3, t)"
    by (cases "getline (cin s) []")
  show ?thesis
  proof (cases "t = []")
    case True
    with g1 assms show ?thesis
      by (auto simp: add_def Let_def)
  next
    case False
    let ?s4 = "print ''Description: '' (?s2\<lparr>cin := c3\<rparr>)"
    obtain c5 d where g2: "getline c3 [] = (c5, d)"
      by (cases "getline c3 []")
    let ?s6 = "print ''Due Date (DD/MM/YYYY): '' (?s4\<lparr>cin := c5\<rparr>)"
    from assms g1 g2 False obtain r' where
      gd: "get_date_input ?s6 = Some r'"
      by (auto simp: add_def Let_def split: option.splits)
    from get_date_input_result [OF gd] obtain c s7 where
      r': "r' = Inr (c, s7)" and c: "canonical_date c" and t7: "todo_items s7 = todo_items s"
      by auto
    from assms g1 g2 False gd r' c t7 show ?thesis
      by (auto simp: add_def Let_def)
  qed
qed

lemma mark_result:
  assumes "mark s = Some r"
  shows "\<exists>s'. r = Inr ((), s') \<and>
     (todo_items s' = todo_items s \<or>
      (\<exists>i. in_bounds (todo_items s) i \<and> \<not> completed (todo_items s ! nat i) \<and>
           todo_items s' = (todo_items s)[nat i := (todo_items s ! nat i)\<lparr>completed := True\<rparr>] \<and>
           last (cout s') = ''Task marked as completed.'' @ [newline]))"
proof -
  from assms obtain r1 where g: "get_item_position ''mark'' s = Some r1"
    by (auto simp: mark_def split: option.splits)
  from get_item_position_result [OF g] obtain i s1 where
    r1: "r1 = Inr (i, s1)" and t: "todo_items s1 = todo_items s"
    and i: "i = - 1 \<or> in_bounds (todo_items s) i"
    by auto
  show ?thesis
  proof (cases "i = - 1")
    case True
    with assms g r1 t show ?thesis
      by (auto simp: mark_def)
  next
    case False
    with i have "in_bounds (todo_items s) i"
      by simp
    with assms g r1 t False show ?thesis
      by (auto simp: mark_def vector_at_def vector_set_def split: if_splits)
  qed
qed

lemma edit_result:
  assumes "edit s = Some r"
  shows "\<exists>s'. r = Inr ((), s') \<and>
     ((todo_items s' = todo_items s \<and> last (cout s') = ''Abort task.'' @ [newline]) \<or>
      (\<exists>i t. in_bounds (todo_items s) i \<and> todo_items s' = (todo_items s)[nat i := t] \<and>
           title t \<noteq> [] \<and> canonical_date (due_date t) \<and>
           completed t = completed (todo_items s ! nat i) \<and>
           last (cout s') = ''Task edited successfully'' @ [newline]))"
proof -
  from assms obtain r1 where g: "get_item_position ''edit'' s = Some r1"
    by (auto simp: edit_def split: option.splits)
  from get_item_position_result [OF g] obtain i s1 where
    r1: "r1 = Inr (i, s1)" and t: "todo_items s1 = todo_items s"
    and i: "i = - 1 \<and> last (cout s1) = ''Abort task.'' @ [newline] \<or> in_bounds (todo_items s) i"
    by auto
  show ?thesis
  proof (cases "i = - 1")
    case True
    with i have "last (cout s1) = ''Abort task.'' @ [newline]"
      by (auto simp: in_bounds_def)
    with True assms g r1 t show ?thesis
      by (auto simp: edit_def)
  next
    case False
    with i have b: "in_bounds (todo_items s) i"
      by simp
    let ?task = "todo_items s ! nat i"
    let ?s3 = "print (''Title (was '' @ title ?task @ ''): '')
                 (print (''Enter task details (Empty to abort operation): '' @ [newline]) s1)"
    obtain c4 tt where g1: "getline (cin s1) (title ?task) = (c4, tt)"
      by (cases "getline (cin s1) (title ?task)")
    show ?thesis
    proof (cases "tt = []")
      case True
      with assms g r1 t b False g1 show ?thesis
        by (auto simp: edit_def vector_at_def Let_def)
    next
      case nonempty: False
      obtain c6 d where g2: "getline c4 (description ?task) = (c6, d)"
        by (cases "getline c4 (description ?task)")
      let ?s7 = "print (''Due Date (DD/MM/YYYY, was '' @ due_date ?task @ ''): '')
                   ((print (''Description: (was '' @ description ?task @ ''): '')
                       (?s3\<lparr>cin := c4\<rparr>))\<lparr>cin := c6\<rparr>)"
      from assms g r1 t b False g1 g2 nonempty obtain r' where
        gd: "get_date_input ?s7 = Some r'"
        by (auto simp: edit_def vector_at_def Let_def split: option.splits)
      from get_date_input_result [OF gd] obtain c s8 where
        r': "r' = Inr (c, s8)" and c: "canonical_date c" and t8: "todo_items s8 = todo_items s"
        using t by auto
      let ?t = "?task\<lparr>title := tt, description := d, due_date := c\<rparr>"
      define s' where "s' = print (''Task edited successfully'' @ [newline])
                              (s8\<lparr>todo_items := (todo_items s)[nat i := ?t]\<rparr>)"
      from assms g r1 t b False g1 g2 nonempty gd r' t8 have "r = Inr ((), s')"
        by (auto simp: edit_def vector_at_def vector_set_def Let_def s'_def)
      moreover have "todo_items s' = (todo_items s)[nat i := ?t]"
        and "last (cout s') = ''Task edited successfully'' @ [newline]"
        by (simp_all add: s'_def)
      moreover from nonempty c have "title ?t \<noteq> []" "canonical_date (due_date ?t)"
        "completed ?t = completed ?task"
        by simp_all
      ultimately show ?thesis
        using b by blast
    qed
  qed
qed

lemma remove_result:
  assumes "remove s = Some r"
  shows "r = Inl Uninitialised \<or>
     (\<exists>s'. r = Inr ((), s') \<and>
        (todo_items s' = todo_items s \<or>
         (\<exists>i. in_bounds (todo_items s) i \<and>
              todo_items s' = take (nat i) (todo_items s) @ drop (Suc (nat i)) (todo_items s) \<and>
              last (cout s') = ''Task deleted successfully.'' @ [newline])))"
proof -
  from assms obtain r1 where g: "get_item_position ''remove'' s = Some r1"
    by (auto simp: remove_def split: option.splits)
  from get_item_position_result [OF g] obtain i s1 where
    r1: "r1 = Inr (i, s1)" and t: "todo_items s1 = todo_items s"
    and i: "i = - 1 \<or> in_bounds (todo_items s) i"
    by auto
  show ?thesis
  proof (cases "i = - 1")
    case True
    with assms g r1 t show ?thesis
      by (auto simp: remove_def)
  next
    case False
    with i have b: "in_bounds (todo_items s) i"
      by simp
    obtain c3 ch where g1: "get_char (cin s1) None = (c3, ch)"
      by (cases "get_char (cin s1) None")
    from assms g r1 t b False g1 show ?thesis
      by (auto simp: remove_def vector_at_def vector_erase_def Let_def split: option.splits if_splits)
  qed
qed

subsection \<open>Positions\<close>

lemma get_int_show_nat:
  assumes "good c" and "buf c = show_nat n @ x # rest" and "\<not> isdigit x" and "int n \<le> INT_MAX"
  shows "get_int c var = (c\<lparr>buf := x # rest\<rparr>, Some (int n))"
proof -
  from show_nat_digits [of n] obtain d ds where s: "show_nat n = d # ds"
    and d: "\<forall>y\<in>set (d # ds). isdigit y"
    by (cases "show_nat n") auto
  from d have c: "isdigit d" "\<not> isspace d" "d \<noteq> CHR ''-''" "d \<noteq> CHR ''+''"
    using isdigit_not_space isdigit_not_sign by auto
  from assms(3) have "x # rest = [] \<or> \<not> isdigit (hd (x # rest))"
    by simp
  from takeWhile_run [OF d this]
  have t: "takeWhile isdigit ((d # ds) @ x # rest) = d # ds"
    and r: "dropWhile isdigit ((d # ds) @ x # rest) = x # rest"
    by blast+
  have v: "dec_val (d # ds) = int n"
    using dec_val_show_nat [of n] s by simp
  have "INT_MIN \<le> int n"
    by (simp add: INT_MIN_def)
  with assms c t r s v show ?thesis
    by (simp add: get_int_def Let_def good_def)
qed

lemma ignore_newline:
  "good c \<Longrightarrow> buf c = newline # rest \<Longrightarrow> ignore INT_MAX c = c\<lparr>buf := rest\<rparr>"
  by (simp add: ignore_def INT_MAX_def)

lemma not_isdigit_newline: "\<not> isdigit newline"
  by (simp add: isdigit_def newline_def)

lemma get_item_position_returns:
  assumes "good (cin s)" and "buf (cin s) = show_int p @ newline # rest"
    and "p = 0 \<or> 1 \<le> p \<and> p \<le> int (length (todo_items s))" and "p \<le> INT_MAX"
  shows "\<exists>s'. get_item_position action s = Some (Inr (p - 1, s')) \<and> cin s' = (cin s)\<lparr>buf := rest\<rparr>"
proof -
  from assms(3) have p: "0 \<le> p"
    by auto
  with assms have g: "get_int (cin s) None = ((cin s)\<lparr>buf := newline # rest\<rparr>, Some p)"
    using get_int_show_nat [of "cin s" "nat p" newline rest None]
    by (simp add: show_int_nonneg not_isdigit_newline)
  from assms(1) have i: "ignore INT_MAX ((cin s)\<lparr>buf := newline # rest\<rparr>) = (cin s)\<lparr>buf := rest\<rparr>"
    using ignore_newline [of "(cin s)\<lparr>buf := newline # rest\<rparr>" rest] by (simp add: good_def)
  from assms(1) i have nf: "\<not> failbit (ignore INT_MAX ((cin s)\<lparr>buf := newline # rest\<rparr>))"
    by (simp add: good_def)
  from get_item_position_read [OF g nf, of action] assms(3) i show ?thesis
    by (auto simp: Let_def)
qed

lemma get_item_position_end_of_input:
  "buf (cin s) = [] \<Longrightarrow> get_item_position action s = None"
  unfolding get_item_position_def by (rule loop_end_of_input)

lemma no_out_of_bounds:
  "mark s \<noteq> Some (Inl OutOfBounds)" "edit s \<noteq> Some (Inl OutOfBounds)"
  "remove s \<noteq> Some (Inl OutOfBounds)"
  using mark_result [of s] edit_result [of s] remove_result [of s] by auto

text \<open>
  C9. Whatever the list and the input, a result of \<open>get_item_position\<close> is \<open>-1\<close> or an
  index from 0 to the size of the vector minus 1, and the vector is as it was; with an empty
  list the result can only be \<open>-1\<close>. So \<open>mark\<close>, \<open>edit\<close> and \<open>remove\<close> never reach
  outside the vector. The function does return on a line with 0 or with the number of a
  task; at the end of the input it asks again for ever.
\<close>

theorem position_in_bounds:
  "(get_item_position action s = Some r \<longrightarrow>
      (\<exists>i s'. r = Inr (i, s') \<and> todo_items s' = todo_items s \<and>
         (i = - 1 \<or> 0 \<le> i \<and> i \<le> int (length (todo_items s)) - 1))) \<and>
   (todo_items s = [] \<longrightarrow> get_item_position action s = Some r \<longrightarrow> (\<exists>s'. r = Inr (- 1, s'))) \<and>
   mark s \<noteq> Some (Inl OutOfBounds) \<and> edit s \<noteq> Some (Inl OutOfBounds) \<and>
   remove s \<noteq> Some (Inl OutOfBounds) \<and>
   (good (cin s) \<and> buf (cin s) = show_int p @ newline # rest \<and> p \<le> INT_MAX \<and>
    (p = 0 \<or> 1 \<le> p \<and> p \<le> int (length (todo_items s))) \<longrightarrow>
      (\<exists>s'. get_item_position action s = Some (Inr (p - 1, s')))) \<and>
   (buf (cin s) = [] \<longrightarrow> get_item_position action s = None)"
proof -
  have a: "\<exists>i s'. r = Inr (i, s') \<and> todo_items s' = todo_items s \<and>
         (i = - 1 \<or> 0 \<le> i \<and> i \<le> int (length (todo_items s)) - 1)"
    if "get_item_position action s = Some r"
    using get_item_position_result [OF that] by (auto simp: in_bounds_def)
  then have b: "\<exists>s'. r = Inr (- 1, s')"
    if "todo_items s = []" "get_item_position action s = Some r"
    using that by fastforce
  from a b no_out_of_bounds [of s] get_item_position_returns [of s p rest action]
    get_item_position_end_of_input [of s action]
  show ?thesis
    by blast
qed

theorem position_in_bounds_witness:
  "(\<exists>s'. get_item_position ''mark''
            \<lparr>todo_items =
               [\<lparr>title = ''a'', description = [], due_date = ''1/1/2025'', completed = False\<rparr>,
                \<lparr>title = ''b'', description = [], due_date = ''2/1/2025'', completed = True\<rparr>],
             cin = \<lparr>buf = ''x'' @ [newline] @ ''7'' @ [newline] @ ''2'' @ [newline],
                    eofbit = False, failbit = False\<rparr>,
             cout = []\<rparr> = Some (Inr (1, s')) \<and>
         todo_items s' =
           [\<lparr>title = ''a'', description = [], due_date = ''1/1/2025'', completed = False\<rparr>,
            \<lparr>title = ''b'', description = [], due_date = ''2/1/2025'', completed = True\<rparr>]) \<and>
   (\<exists>s'. get_item_position ''edit''
            \<lparr>todo_items = [], cin = \<lparr>buf = ''0'' @ [newline], eofbit = False, failbit = False\<rparr>,
             cout = []\<rparr> = Some (Inr (- 1, s'))) \<and>
   get_item_position ''remove''
     \<lparr>todo_items = [], cin = \<lparr>buf = [], eofbit = False, failbit = False\<rparr>, cout = []\<rparr> = None"
proof -
  let ?items = "[\<lparr>title = ''a'', description = [], due_date = ''1/1/2025'', completed = False\<rparr>,
                 \<lparr>title = ''b'', description = [], due_date = ''2/1/2025'', completed = True\<rparr>]"
  let ?s = "\<lparr>todo_items = ?items,
             cin = \<lparr>buf = ''x'' @ [newline] @ ''7'' @ [newline] @ ''2'' @ [newline],
                    eofbit = False, failbit = False\<rparr>,
             cout = []\<rparr>"
  let ?e = "\<lparr>todo_items = [], cin = \<lparr>buf = ''0'' @ [newline], eofbit = False, failbit = False\<rparr>,
             cout = []\<rparr>"
  let ?n = "\<lparr>todo_items = [], cin = \<lparr>buf = [], eofbit = False, failbit = False\<rparr>, cout = []\<rparr>"
  have ev: "map_option (map_sum id fst) (get_item_position ''mark'' ?s) = Some (Inr 1)"
    by code_simp
  then obtain r where r: "get_item_position ''mark'' ?s = Some r"
    by (cases "get_item_position ''mark'' ?s") auto
  with position_in_bounds [of "''mark''" ?s r 0 "[]", THEN conjunct1] obtain i s' where
    "r = Inr (i, s')" "todo_items s' = ?items"
    by auto
  with ev r have 1: "\<exists>s'. get_item_position ''mark'' ?s = Some (Inr (1, s')) \<and> todo_items s' = ?items"
    by auto
  have "show_int 0 = ''0''"
    by code_simp
  with position_in_bounds [of "''edit''" ?e "Inl OutOfBounds" 0 "[]"]
  have 2: "\<exists>s'. get_item_position ''edit'' ?e = Some (Inr (- 1, s'))"
    by (simp add: good_def INT_MAX_def)
  from position_in_bounds [of "''remove''" ?n "Inl OutOfBounds" 0 "[]"]
  have 3: "get_item_position ''remove'' ?n = None"
    by simp
  from 1 2 3 show ?thesis
    by blast
qed

subsection \<open>Aborted and completed commands\<close>

lemma add_empty_title:
  assumes "snd (getline (cin s) []) = []"
  shows "\<exists>s'. add s = Some (Inr ((), s')) \<and> todo_items s' = todo_items s \<and>
              last (cout s') = ''Abort task.'' @ [newline]"
proof -
  from assms obtain c3 where "getline (cin s) [] = (c3, [])"
    by (cases "getline (cin s) []") auto
  then show ?thesis
    by (simp add: add_def Let_def)
qed

lemma edit_empty_title:
  assumes "get_item_position ''edit'' s = Some (Inr (i, s1))" and "i \<noteq> - 1"
    and "snd (getline (cin s1) (title (todo_items s ! nat i))) = []"
  shows "\<exists>s'. edit s = Some (Inr ((), s')) \<and> todo_items s' = todo_items s \<and>
              last (cout s') = ''Abort task.'' @ [newline]"
proof -
  from get_item_position_result [OF assms(1)] assms(2)
  have t: "todo_items s1 = todo_items s" and b: "in_bounds (todo_items s) i"
    by auto
  from assms(3) obtain c4 where "getline (cin s1) (title (todo_items s ! nat i)) = (c4, [])"
    by (cases "getline (cin s1) (title (todo_items s ! nat i))") auto
  with assms(1,2) t b show ?thesis
    by (simp add: edit_def vector_at_def Let_def)
qed

text \<open>
  C7. A run of \<open>add\<close> or of \<open>edit\<close> that returns has either aborted, with
  \<open>Abort task.\<close> as its last output and the list exactly as it was, or succeeded, with
  its message of success as the last output and one change to the list: one complete task
  appended by \<open>add\<close>, one task replaced by \<open>edit\<close>, with a title that is not empty and
  a canonical due date. An empty title given to \<open>add\<close>, or to \<open>edit\<close> after a task was
  chosen, aborts. The list is changed by the last statement only, so a run that never
  returns has not changed it either.
\<close>

theorem add_edit_all_or_nothing:
  "(add s = Some r \<longrightarrow>
      (\<exists>s'. r = Inr ((), s') \<and>
         ((todo_items s' = todo_items s \<and> last (cout s') = ''Abort task.'' @ [newline]) \<or>
          (\<exists>t. todo_items s' = todo_items s @ [t] \<and> title t \<noteq> [] \<and> \<not> completed t \<and>
               canonical_date (due_date t) \<and>
               last (cout s') = ''Task added successfully'' @ [newline])))) \<and>
   (edit s = Some r \<longrightarrow>
      (\<exists>s'. r = Inr ((), s') \<and>
         ((todo_items s' = todo_items s \<and> last (cout s') = ''Abort task.'' @ [newline]) \<or>
          (\<exists>i t. in_bounds (todo_items s) i \<and> todo_items s' = (todo_items s)[nat i := t] \<and>
               title t \<noteq> [] \<and> canonical_date (due_date t) \<and>
               completed t = completed (todo_items s ! nat i) \<and>
               last (cout s') = ''Task edited successfully'' @ [newline])))) \<and>
   (snd (getline (cin s) []) = [] \<longrightarrow>
      (\<exists>s'. add s = Some (Inr ((), s')) \<and> todo_items s' = todo_items s \<and>
            last (cout s') = ''Abort task.'' @ [newline])) \<and>
   (get_item_position ''edit'' s = Some (Inr (i, s1)) \<and> i \<noteq> - 1 \<and>
    snd (getline (cin s1) (title (todo_items s ! nat i))) = [] \<longrightarrow>
      (\<exists>s'. edit s = Some (Inr ((), s')) \<and> todo_items s' = todo_items s \<and>
            last (cout s') = ''Abort task.'' @ [newline]))"
  using add_result [of s r] edit_result [of s r] add_empty_title [of s]
    edit_empty_title [of s i s1]
  by blast

theorem add_edit_all_or_nothing_witness:
  "(\<exists>s'. add \<lparr>todo_items = [\<lparr>title = ''a'', description = ''b'', due_date = ''1/1/2025'',
                                completed = True\<rparr>],
                cin = \<lparr>buf = [newline], eofbit = False, failbit = False\<rparr>, cout = []\<rparr> =
           Some (Inr ((), s')) \<and>
         todo_items s' = [\<lparr>title = ''a'', description = ''b'', due_date = ''1/1/2025'',
                            completed = True\<rparr>] \<and>
         last (cout s') = ''Abort task.'' @ [newline]) \<and>
   (\<exists>s'. add \<lparr>todo_items = [\<lparr>title = ''a'', description = ''b'', due_date = ''1/1/2025'',
                                completed = True\<rparr>],
                cin = \<lparr>buf = ''Buy milk'' @ [newline] @ ''2%'' @ [newline] @ ''31/4/2025'' @
                             [newline] @ '' 5 / 3 /2025 '' @ [newline],
                       eofbit = False, failbit = False\<rparr>, cout = []\<rparr> =
           Some (Inr ((), s')) \<and>
         todo_items s' = [\<lparr>title = ''a'', description = ''b'', due_date = ''1/1/2025'',
                            completed = True\<rparr>,
                          \<lparr>title = ''Buy milk'', description = ''2%'', due_date = ''5/3/2025'',
                            completed = False\<rparr>] \<and>
         last (cout s') = ''Task added successfully'' @ [newline]) \<and>
   (\<exists>s'. edit \<lparr>todo_items = [\<lparr>title = ''a'', description = ''b'', due_date = ''1/1/2025'',
                                 completed = True\<rparr>],
                 cin = \<lparr>buf = ''1'' @ [newline] @ [newline], eofbit = False, failbit = False\<rparr>,
                 cout = []\<rparr> =
           Some (Inr ((), s')) \<and>
         todo_items s' = [\<lparr>title = ''a'', description = ''b'', due_date = ''1/1/2025'',
                            completed = True\<rparr>] \<and>
         last (cout s') = ''Abort task.'' @ [newline])"
proof -
  let ?x = "\<lparr>title = ''a'', description = ''b'', due_date = ''1/1/2025'', completed = True\<rparr>"
  let ?y = "\<lparr>title = ''Buy milk'', description = ''2%'', due_date = ''5/3/2025'',
             completed = False\<rparr>"
  let ?s1 = "\<lparr>todo_items = [?x], cin = \<lparr>buf = [newline], eofbit = False, failbit = False\<rparr>,
              cout = []\<rparr>"
  let ?s2 = "\<lparr>todo_items = [?x],
              cin = \<lparr>buf = ''Buy milk'' @ [newline] @ ''2%'' @ [newline] @ ''31/4/2025'' @
                           [newline] @ '' 5 / 3 /2025 '' @ [newline],
                     eofbit = False, failbit = False\<rparr>, cout = []\<rparr>"
  let ?s3 = "\<lparr>todo_items = [?x],
              cin = \<lparr>buf = ''1'' @ [newline] @ [newline], eofbit = False, failbit = False\<rparr>,
              cout = []\<rparr>"
  let ?s4 = "\<lparr>todo_items = [?x], cin = \<lparr>buf = [newline], eofbit = False, failbit = False\<rparr>,
              cout = [''Enter task number to edit (0 to abort operation): '']\<rparr>"
  have "snd (getline (cin ?s1) []) = []"
    by code_simp
  with add_edit_all_or_nothing [of ?s1 "Inl OutOfBounds" 0 ?s1]
  have 1: "\<exists>s'. add ?s1 = Some (Inr ((), s')) \<and> todo_items s' = [?x] \<and>
                last (cout s') = ''Abort task.'' @ [newline]"
    by simp
  have ev: "map_option (map_sum id (\<lambda>(u, s). todo_items s)) (add ?s2) = Some (Inr [?x, ?y])"
    by code_simp
  then obtain r where r: "add ?s2 = Some r"
    by (cases "add ?s2") auto
  with add_edit_all_or_nothing [of ?s2 r 0 ?s1, THEN conjunct1] ev
  have 2: "\<exists>s'. add ?s2 = Some (Inr ((), s')) \<and> todo_items s' = [?x, ?y] \<and>
                last (cout s') = ''Task added successfully'' @ [newline]"
    by auto
  have "get_item_position ''edit'' ?s3 = Some (Inr (0, ?s4))"
    by code_simp
  moreover have "snd (getline (cin ?s4) (title (todo_items ?s3 ! nat 0))) = []"
    by code_simp
  ultimately have 3: "\<exists>s'. edit ?s3 = Some (Inr ((), s')) \<and> todo_items s' = [?x] \<and>
                last (cout s') = ''Abort task.'' @ [newline]"
    using add_edit_all_or_nothing [of ?s3 "Inl OutOfBounds" 0 ?s4] by simp
  from 1 2 3 show ?thesis
    by blast
qed

subsection \<open>Canonical due dates\<close>









subsection \<open>Marking a task\<close>




subsection \<open>Removing a task\<close>

lemma erase_nth:
  assumes "k < length v"
  shows "length (take k v @ drop (Suc k) v) = length v - 1"
    and "j < k \<Longrightarrow> (take k v @ drop (Suc k) v) ! j = v ! j"
    and "k \<le> j \<Longrightarrow> j < length v - 1 \<Longrightarrow> (take k v @ drop (Suc k) v) ! j = v ! Suc j"
  using assms by (auto simp: nth_append min_def)

lemma remove_confirmed:
  assumes "get_item_position ''remove'' s = Some (Inr (i, s1))" and "i \<noteq> - 1"
    and "get_char (cin s1) None = (c3, Some ch)"
  shows "\<exists>s'. remove s = Some (Inr ((), s')) \<and>
      (ch = CHR ''y'' \<or> ch = CHR ''Y'' \<longrightarrow>
         todo_items s' = take (nat i) (todo_items s) @ drop (Suc (nat i)) (todo_items s) \<and>
         last (cout s') = ''Task deleted successfully.'' @ [newline]) \<and>
      (ch \<noteq> CHR ''y'' \<and> ch \<noteq> CHR ''Y'' \<longrightarrow>
         todo_items s' = todo_items s \<and>
         last (cout s') = ''Delete operation cancelled.'' @ [newline])"
proof -
  from get_item_position_result [OF assms(1)] assms(2)
  have t: "todo_items s1 = todo_items s" and b: "in_bounds (todo_items s) i"
    by auto
  show ?thesis
  proof (cases "ch = CHR ''y'' \<or> ch = CHR ''Y''")
    case True
    with assms t b show ?thesis
      by (auto simp: remove_def vector_at_def vector_erase_def Let_def)
  next
    case False
    with assms t b show ?thesis
      by (auto simp: remove_def vector_at_def vector_erase_def Let_def)
  qed
qed

text \<open>
  C5. When the position \<open>p\<close> of a task is read and the confirmation starts with \<open>y\<close> or
  \<open>Y\<close>, \<open>remove\<close> takes the task at \<open>p\<close> out: the list is one shorter, the tasks before
  \<open>p\<close> stay where they are and every later task moves one position down. After three
  tasks are appended to an empty list and the second is removed, the size is 2 and the task
  at position 2 is the one that was at position 3.
\<close>

theorem remove_shifts_down:
  "(get_int (cin s) None = (c1, Some p) \<and> \<not> failbit (ignore INT_MAX c1) \<and>
    1 \<le> p \<and> p \<le> int (length (todo_items s)) \<and>
    get_char (ignore INT_MAX c1) None = (c3, Some ch) \<and> (ch = CHR ''y'' \<or> ch = CHR ''Y'') \<longrightarrow>
      (\<exists>s'. remove s = Some (Inr ((), s')) \<and>
         todo_items s' = take (nat (p - 1)) (todo_items s) @ drop (nat p) (todo_items s) \<and>
         length (todo_items s') = length (todo_items s) - 1 \<and>
         (\<forall>j. j < nat (p - 1) \<longrightarrow> todo_items s' ! j = todo_items s ! j) \<and>
         (\<forall>j. nat (p - 1) \<le> j \<and> j < length (todo_items s') \<longrightarrow>
              todo_items s' ! j = todo_items s ! Suc j))) \<and>
   (\<exists>s'. remove \<lparr>todo_items = (([] @ [a]) @ [b]) @ [c],
                  cin = \<lparr>buf = ''2'' @ [newline] @ ''y'' @ [newline], eofbit = False,
                         failbit = False\<rparr>,
                  cout = out\<rparr> = Some (Inr ((), s')) \<and>
         todo_items s' = [a, c] \<and> length (todo_items s') = 2 \<and> todo_items s' ! (2 - 1) = c)"
proof -
  have general: "\<exists>s'. remove s = Some (Inr ((), s')) \<and>
         todo_items s' = take (nat (p - 1)) (todo_items s) @ drop (nat p) (todo_items s) \<and>
         length (todo_items s') = length (todo_items s) - 1 \<and>
         (\<forall>j. j < nat (p - 1) \<longrightarrow> todo_items s' ! j = todo_items s ! j) \<and>
         (\<forall>j. nat (p - 1) \<le> j \<and> j < length (todo_items s') \<longrightarrow>
              todo_items s' ! j = todo_items s ! Suc j)"
    if g: "get_int (cin s) None = (c1, Some p)" and f: "\<not> failbit (ignore INT_MAX c1)"
      and p: "1 \<le> p" "p \<le> int (length (todo_items s))"
      and ch: "get_char (ignore INT_MAX c1) None = (c3, Some ch)" "ch = CHR ''y'' \<or> ch = CHR ''Y''"
    for s c1 p c3 ch
  proof -
    let ?s1 = "(print (''Enter task number to '' @ ''remove'' @ '' (0 to abort operation): '') s)
                 \<lparr>cin := ignore INT_MAX c1\<rparr>"
    from get_item_position_read [OF g f, of "''remove''"] p
    have pos: "get_item_position ''remove'' s = Some (Inr (p - 1, ?s1))"
      by (auto simp: Let_def)
    from p have ne: "p - 1 \<noteq> - 1"
      by simp
    from ch(1) have "get_char (cin ?s1) None = (c3, Some ch)"
      by simp
    from remove_confirmed [OF pos ne this] ch(2) obtain s' where
      r: "remove s = Some (Inr ((), s'))" and
      t: "todo_items s' = take (nat (p - 1)) (todo_items s) @ drop (Suc (nat (p - 1))) (todo_items s)"
      by auto
    from p have k: "nat (p - 1) < length (todo_items s)" and sk: "Suc (nat (p - 1)) = nat p"
      by auto
    from erase_nth [OF k] t have
      "length (todo_items s') = length (todo_items s) - 1"
      "\<forall>j. j < nat (p - 1) \<longrightarrow> todo_items s' ! j = todo_items s ! j"
      "\<forall>j. nat (p - 1) \<le> j \<and> j < length (todo_items s') \<longrightarrow> todo_items s' ! j = todo_items s ! Suc j"
      by auto
    with r t sk show ?thesis
      by auto
  qed
  let ?c = "\<lambda>text. \<lparr>buf = text, eofbit = False, failbit = False\<rparr>"
  let ?s = "\<lparr>todo_items = (([] @ [a]) @ [b]) @ [c], cin = ?c (''2'' @ [newline] @ ''y'' @ [newline]),
             cout = out\<rparr>"
  have g: "get_int (?c (''2'' @ [newline] @ ''y'' @ [newline])) None =
             (?c ([newline] @ ''y'' @ [newline]), Some 2)"
    by code_simp
  have i: "ignore INT_MAX (?c ([newline] @ ''y'' @ [newline])) = ?c (''y'' @ [newline])"
    by code_simp
  have h: "get_char (?c (''y'' @ [newline])) None = (?c [newline], Some CHR ''y'')"
    by code_simp
  from general [of ?s "?c ([newline] @ ''y'' @ [newline])" 2 "?c [newline]" "CHR ''y''"] g i h
  have "\<exists>s'. remove ?s = Some (Inr ((), s')) \<and>
         todo_items s' = [a, c] \<and> length (todo_items s') = 2 \<and> todo_items s' ! (2 - 1) = c"
    by auto
  with general [of s c1 p c3 ch] show ?thesis
    by blast
qed

theorem remove_shifts_down_witness:
  "\<exists>s'. remove \<lparr>todo_items =
                  [\<lparr>title = ''a'', description = [], due_date = ''1/1/2025'', completed = False\<rparr>,
                   \<lparr>title = ''b'', description = [], due_date = ''2/1/2025'', completed = True\<rparr>,
                   \<lparr>title = ''c'', description = [], due_date = ''3/1/2025'', completed = False\<rparr>],
                 cin = \<lparr>buf = ''2'' @ [newline] @ ''Y'' @ [newline], eofbit = False,
                        failbit = False\<rparr>,
                 cout = []\<rparr> = Some (Inr ((), s')) \<and>
        todo_items s' =
          [\<lparr>title = ''a'', description = [], due_date = ''1/1/2025'', completed = False\<rparr>,
           \<lparr>title = ''c'', description = [], due_date = ''3/1/2025'', completed = False\<rparr>] \<and>
        length (todo_items s') = 2"
proof -
  let ?c = "\<lambda>text. \<lparr>buf = text, eofbit = False, failbit = False\<rparr>"
  let ?a = "\<lparr>title = ''a'', description = [], due_date = ''1/1/2025'', completed = False\<rparr>"
  let ?b = "\<lparr>title = ''b'', description = [], due_date = ''2/1/2025'', completed = True\<rparr>"
  let ?d = "\<lparr>title = ''c'', description = [], due_date = ''3/1/2025'', completed = False\<rparr>"
  let ?s = "\<lparr>todo_items = [?a, ?b, ?d], cin = ?c (''2'' @ [newline] @ ''Y'' @ [newline]),
             cout = []\<rparr>"
  have g: "get_int (cin ?s) None = (?c ([newline] @ ''Y'' @ [newline]), Some 2)"
    by code_simp
  have i: "ignore INT_MAX (?c ([newline] @ ''Y'' @ [newline])) = ?c (''Y'' @ [newline])"
    by code_simp
  have h: "get_char (?c (''Y'' @ [newline])) None = (?c [newline], Some CHR ''Y'')"
    by code_simp
  from remove_shifts_down
    [of ?s "?c ([newline] @ ''Y'' @ [newline])" 2 "?c [newline]" "CHR ''Y''" ?a ?b ?d "[]",
     THEN conjunct1] g i h
  show ?thesis
    by auto
qed

subsection \<open>The confirmation of \<open>remove\<close>\<close>

text \<open>
  C8, as stated: the task is deleted exactly when the confirmation is a yes, compared without
  regard to case. It fails for the confirmation \<open>yellow\<close>, which is no such yes and
  deletes the task.
\<close>

theorem remove_confirmation_counterexample:
  "\<not> says_yes ''yellow'' \<and>
   remove \<lparr>todo_items = [\<lparr>title = ''a'', description = [], due_date = ''1/1/2025'',
                            completed = False\<rparr>],
           cin = \<lparr>buf = ''1'' @ [newline] @ ''yellow'' @ [newline], eofbit = False,
                  failbit = False\<rparr>,
           cout = []\<rparr> =
     Some (Inr ((), \<lparr>todo_items = [],
                     cin = \<lparr>buf = [], eofbit = False, failbit = False\<rparr>,
                     cout = [''Enter task number to remove (0 to abort operation): '',
                             ''Confirm to delete '' @ [quote] @ ''a'' @ [quote] @ ''? [y/n]: '',
                             ''Task deleted successfully.'' @ [newline]]\<rparr>))"
  by code_simp

lemma get_char_first:
  assumes "good c" and "dropWhile isspace (buf c) = ch # rest"
  shows "get_char c None = (c\<lparr>buf := rest\<rparr>, Some ch)"
  using assms by (simp add: get_char_def)

lemma tolower_y: "tolower c = CHR ''y'' \<Longrightarrow> c = CHR ''y'' \<or> c = CHR ''Y''"
  by (auto simp: tolower_def split: if_splits)

lemma says_yes_first:
  assumes "says_yes answer"
  shows "\<exists>ch r. answer = ch # r \<and> (ch = CHR ''y'' \<or> ch = CHR ''Y'') \<and> \<not> isspace ch"
proof -
  from assms obtain ch r where a: "answer = ch # r" and "tolower ch = CHR ''y''"
    by (cases answer) (auto simp: says_yes_def)
  then have "ch = CHR ''y'' \<or> ch = CHR ''Y''"
    using tolower_y by blast
  moreover from this have "\<not> isspace ch"
    by (auto simp: isspace_def)
  ultimately show ?thesis
    using a by blast
qed

text \<open>
  C8, amended: after the position of a task is chosen, the task is deleted exactly when the
  first character of the confirmation that is not white space is \<open>y\<close> or \<open>Y\<close>, as it
  is in every yes; with any other first character the deletion is cancelled and the list is
  as it was.
\<close>

theorem remove_confirmation:
  assumes "get_item_position ''remove'' s = Some (Inr (i, s1))" and "i \<noteq> - 1"
    and "good (cin s1)" and "dropWhile isspace (buf (cin s1)) = ch # rest"
  shows "\<exists>s'. remove s = Some (Inr ((), s')) \<and>
      (ch = CHR ''y'' \<or> ch = CHR ''Y'' \<longrightarrow>
         todo_items s' = take (nat i) (todo_items s) @ drop (Suc (nat i)) (todo_items s) \<and>
         length (todo_items s') = length (todo_items s) - 1 \<and>
         last (cout s') = ''Task deleted successfully.'' @ [newline]) \<and>
      (ch \<noteq> CHR ''y'' \<and> ch \<noteq> CHR ''Y'' \<longrightarrow>
         todo_items s' = todo_items s \<and>
         last (cout s') = ''Delete operation cancelled.'' @ [newline]) \<and>
      (says_yes (ch # rest') \<longrightarrow> ch = CHR ''y'' \<or> ch = CHR ''Y'')"
proof -
  from get_item_position_result [OF assms(1)] assms(2)
  have b: "in_bounds (todo_items s) i"
    by auto
  then have "nat i < length (todo_items s)"
    by (simp add: in_bounds_def nat_less_iff)
  from erase_nth(1) [OF this]
  have l: "length (take (nat i) (todo_items s) @ drop (Suc (nat i)) (todo_items s)) =
           length (todo_items s) - 1" .
  from remove_confirmed [OF assms(1,2) get_char_first [OF assms(3,4)]] obtain s' where
    "remove s = Some (Inr ((), s'))"
    "ch = CHR ''y'' \<or> ch = CHR ''Y'' \<longrightarrow>
         todo_items s' = take (nat i) (todo_items s) @ drop (Suc (nat i)) (todo_items s) \<and>
         last (cout s') = ''Task deleted successfully.'' @ [newline]"
    "ch \<noteq> CHR ''y'' \<and> ch \<noteq> CHR ''Y'' \<longrightarrow>
         todo_items s' = todo_items s \<and>
         last (cout s') = ''Delete operation cancelled.'' @ [newline]"
    by blast
  moreover have "says_yes (ch # rest') \<longrightarrow> ch = CHR ''y'' \<or> ch = CHR ''Y''"
    using says_yes_first [of "ch # rest'"] by auto
  ultimately show ?thesis
    using l by auto
qed

theorem remove_confirmation_witness:
  "(\<exists>s'. remove \<lparr>todo_items =
                   [\<lparr>title = ''a'', description = [], due_date = ''1/1/2025'', completed = False\<rparr>,
                    \<lparr>title = ''b'', description = [], due_date = ''2/1/2025'', completed = True\<rparr>],
                  cin = \<lparr>buf = ''1'' @ [newline] @ ''yellow'' @ [newline], eofbit = False,
                         failbit = False\<rparr>,
                  cout = []\<rparr> = Some (Inr ((), s')) \<and>
         todo_items s' =
           [\<lparr>title = ''b'', description = [], due_date = ''2/1/2025'', completed = True\<rparr>] \<and>
         last (cout s') = ''Task deleted successfully.'' @ [newline]) \<and>
   (\<exists>s'. remove \<lparr>todo_items =
                   [\<lparr>title = ''a'', description = [], due_date = ''1/1/2025'', completed = False\<rparr>,
                    \<lparr>title = ''b'', description = [], due_date = ''2/1/2025'', completed = True\<rparr>],
                  cin = \<lparr>buf = ''1'' @ [newline] @ '' No'' @ [newline], eofbit = False,
                         failbit = False\<rparr>,
                  cout = []\<rparr> = Some (Inr ((), s')) \<and>
         todo_items s' =
           [\<lparr>title = ''a'', description = [], due_date = ''1/1/2025'', completed = False\<rparr>,
            \<lparr>title = ''b'', description = [], due_date = ''2/1/2025'', completed = True\<rparr>] \<and>
         last (cout s') = ''Delete operation cancelled.'' @ [newline])"
proof -
  let ?c = "\<lambda>text. \<lparr>buf = text, eofbit = False, failbit = False\<rparr>"
  let ?a = "\<lparr>title = ''a'', description = [], due_date = ''1/1/2025'', completed = False\<rparr>"
  let ?b = "\<lparr>title = ''b'', description = [], due_date = ''2/1/2025'', completed = True\<rparr>"
  let ?s = "\<lambda>text. \<lparr>todo_items = [?a, ?b], cin = ?c text, cout = []\<rparr>"
  let ?s1 = "\<lambda>text. \<lparr>todo_items = [?a, ?b], cin = ?c text,
                      cout = [''Enter task number to remove (0 to abort operation): '']\<rparr>"
  have p1: "get_item_position ''remove'' (?s (''1'' @ [newline] @ ''yellow'' @ [newline])) =
              Some (Inr (0, ?s1 (''yellow'' @ [newline])))"
    and p2: "get_item_position ''remove'' (?s (''1'' @ [newline] @ '' No'' @ [newline])) =
              Some (Inr (0, ?s1 ('' No'' @ [newline])))"
    by code_simp+
  have ne: "(0::int) \<noteq> - 1"
    by simp
  have g1: "good (cin (?s1 (''yellow'' @ [newline])))"
    and g2: "good (cin (?s1 ('' No'' @ [newline])))"
    by code_simp+
  have d1: "dropWhile isspace (buf (cin (?s1 (''yellow'' @ [newline])))) =
              CHR ''y'' # ''ellow'' @ [newline]"
    and d2: "dropWhile isspace (buf (cin (?s1 ('' No'' @ [newline])))) =
              CHR ''N'' # ''o'' @ [newline]"
    by code_simp+
  from remove_confirmation [OF p1 ne g1 d1, of "[]"]
  have 1: "\<exists>s'. remove (?s (''1'' @ [newline] @ ''yellow'' @ [newline])) = Some (Inr ((), s')) \<and>
         todo_items s' = [?b] \<and> last (cout s') = ''Task deleted successfully.'' @ [newline]"
    by auto
  from remove_confirmation [OF p2 ne g2 d2, of "[]"]
  have 2: "\<exists>s'. remove (?s (''1'' @ [newline] @ '' No'' @ [newline])) = Some (Inr ((), s')) \<and>
         todo_items s' = [?a, ?b] \<and> last (cout s') = ''Delete operation cancelled.'' @ [newline]"
    by auto
  from 1 2 show ?thesis
    by blast
qed

end
